theory Spec2Isabelle
  imports Complex_Main "HOL-Library.Char_ord" "HOL-Library.List_Lexorder"
begin

section \<open>Strings as the seeding script sees them\<close>

text \<open>
  Titles, maker names and model names are JavaScript strings. They are modelled as
  \<open>string\<close> (lists of 8-bit characters) and read as ASCII text: the whitespace class
  \<open>\s\<close> is the six ASCII whitespace characters, \<open>\d\<close> is \<open>0\<close>..\<open>9\<close>, and letter case
  is the ASCII one. The non-ASCII members of \<open>\s\<close> are outside this model.
\<close>

definition is_space :: "char \<Rightarrow> bool" where
  "is_space c = (c \<in> set [CHR 0x20, CHR 0x09, CHR 0x0A, CHR 0x0B, CHR 0x0C, CHR 0x0D])"

definition is_digit :: "char \<Rightarrow> bool" where
  "is_digit c = (c \<in> set ''0123456789'')"

definition lower_letters :: string where
  "lower_letters = ''abcdefghijklmnopqrstuvwxyz''"

definition upper_letters :: string where
  "upper_letters = ''ABCDEFGHIJKLMNOPQRSTUVWXYZ''"

definition is_upper :: "char \<Rightarrow> bool" where
  "is_upper c = (c \<in> set upper_letters)"

definition is_lower :: "char \<Rightarrow> bool" where
  "is_lower c = (c \<in> set lower_letters)"

text \<open>The class \<open>[A-Z]\<close> under the flag \<open>i\<close>: a letter of either case.\<close>

definition is_letter :: "char \<Rightarrow> bool" where
  "is_letter c = (is_upper c \<or> is_lower c)"

text \<open>The characters that \<open>.\<close> does not match.\<close>

definition is_line_terminator :: "char \<Rightarrow> bool" where
  "is_line_terminator c = (c = CHR 0x0A \<or> c = CHR 0x0D)"

definition to_upper :: "char \<Rightarrow> char" where
  "to_upper c = (case map_of (zip lower_letters upper_letters) c of Some u \<Rightarrow> u | None \<Rightarrow> c)"

definition to_lower :: "char \<Rightarrow> char" where
  "to_lower c = (case map_of (zip upper_letters lower_letters) c of Some l \<Rightarrow> l | None \<Rightarrow> c)"

definition toUpperCase :: "string \<Rightarrow> string" where
  "toUpperCase s = map to_upper s"

definition lower :: "string \<Rightarrow> string" where
  "lower s = map to_lower s"

text \<open>\<open>String.prototype.trim\<close>.\<close>

definition trim :: "string \<Rightarrow> string" where
  "trim s = rev (dropWhile is_space (rev (dropWhile is_space s)))"

text \<open>
  \<open>s.split(/\s+/)\<close>: the pieces between maximal runs of whitespace. A string that
  starts or ends with whitespace yields an empty first or last piece, and the empty
  string yields one empty piece.
\<close>

function split_ws :: "string \<Rightarrow> string list" where
  "split_ws s =
     (let tok = takeWhile (\<lambda>c. \<not> is_space c) s;
          rest = dropWhile (\<lambda>c. \<not> is_space c) s
      in if rest = [] then [tok] else tok # split_ws (dropWhile is_space rest))"
  by pat_completeness auto
termination
proof (relation "measure length")
  show "wf (measure length)" by simp
next
  fix s tok rest :: string
  assume r: "rest = dropWhile (\<lambda>c. \<not> is_space c) s" and ne: "rest \<noteq> []"
  from ne obtain c cs where cs: "rest = c # cs" by (cases rest) auto
  have "is_space c" using r cs dropWhile_eq_Cons_conv [of "\<lambda>c. \<not> is_space c" s c cs] by simp
  then have "length (dropWhile is_space rest) \<le> length cs"
    using cs by (simp add: length_dropWhile_le)
  moreover have "length rest \<le> length s" using r by (simp add: length_dropWhile_le)
  ultimately show "(dropWhile is_space rest, s) \<in> measure length" using cs by simp
qed

declare split_ws.simps [simp del]

text \<open>\<open>parts.join(' ')\<close>.\<close>

fun join_sp :: "string list \<Rightarrow> string" where
  "join_sp [] = []"
| "join_sp [t] = t"
| "join_sp (t # u # ts) = t @ CHR '' '' # join_sp (u # ts)"

text \<open>\<open>model.split(' ')[0]\<close>: the text before the first space character.\<close>

definition first_word :: "string \<Rightarrow> string" where
  "first_word s = takeWhile (\<lambda>c. c \<noteq> CHR '' '') s"

section \<open>Free-text extraction: \<open>extractMakeModel\<close>\<close>

text \<open>
  The pattern \<open>/\s+\d+\.\d+\s*[A-Z]+.*$/i\<close> tried at the start of \<open>s\<close>: whitespace, a
  decimal number, optional whitespace, a letter of either case, and then no line
  terminator up to the end of the string. Each quantifier is followed by a character
  outside its own class, so the greedy scan decides the match.
\<close>

definition engine_suffix_at :: "string \<Rightarrow> bool" where
  "engine_suffix_at s =
     (let s1 = dropWhile is_space s;
          s2 = dropWhile is_digit s1;
          s3 = tl s2;
          s4 = dropWhile is_digit s3;
          s5 = dropWhile is_space s4
      in s \<noteq> [] \<and> is_space (hd s) \<and>
         s1 \<noteq> [] \<and> is_digit (hd s1) \<and>
         s2 \<noteq> [] \<and> hd s2 = CHR ''.'' \<and>
         s3 \<noteq> [] \<and> is_digit (hd s3) \<and>
         s5 \<noteq> [] \<and> is_letter (hd s5) \<and>
         \<not> list_ex is_line_terminator s5)"

text \<open>
  \<open>s.replace(/\s+\d+\.\d+\s*[A-Z]+.*$/i, '')\<close>: the leftmost match runs to the end of
  the string, so the replacement keeps what precedes it.
\<close>

fun strip_engine :: "string \<Rightarrow> string" where
  "strip_engine [] = []"
| "strip_engine (c # cs) = (if engine_suffix_at (c # cs) then [] else c # strip_engine cs)"

record make_model =
  ex_make :: "string option"
  ex_model :: "string option"

text \<open>
  The title is absent (\<open>None\<close>) or a string. \<open>!title\<close> holds for an absent and for an
  empty title; \<open>parts[0] || null\<close> turns an empty first piece into null.
\<close>

definition extractMakeModel :: "string option \<Rightarrow> make_model" where
  "extractMakeModel title =
     (case title of
        None \<Rightarrow> \<lparr>ex_make = None, ex_model = None\<rparr>
      | Some t \<Rightarrow>
          if t = [] then \<lparr>ex_make = None, ex_model = None\<rparr>
          else
            (case split_ws (trim t) of
               [] \<Rightarrow> \<lparr>ex_make = None, ex_model = None\<rparr>
             | [p0] \<Rightarrow> \<lparr>ex_make = (if p0 = [] then None else Some p0), ex_model = None\<rparr>
             | p0 # p1 # ps \<Rightarrow>
                 (let mk = (if p1 = ''Benz'' then p0 @ ''-'' @ p1 else p0);
                      parts = (if p1 = ''Benz'' then ps else p1 # ps)
                  in \<lparr>ex_make = Some mk,
                      ex_model = Some (trim (strip_engine (join_sp parts)))\<rparr>)))"

section \<open>The tables\<close>

text \<open>
  The tables of \<open>initSchema\<close> that the reconciliation and price-delta code reads and
  writes. A table is the list of its rows in the order a scan returns them; a
  \<open>NUMERIC\<close> column is an exact rational, a nullable column an \<open>option\<close>. A \<open>SERIAL\<close>
  column draws its value from a sequence, whose next value is part of the state. The
  \<open>sales\<close> table and the analytics tables are not read by the code modelled here and
  are left out.
\<close>

record maker =
  mk_id :: int
  mk_name :: string

record model_row =
  m_id :: int
  m_maker_id :: int
  m_name :: string
  m_genmodel_id :: string

record price_row =
  p_model_id :: int
  p_year :: int
  p_entry_price :: "rat option"
  p_entry_price_eur :: "rat option"

record listing =
  l_id :: int
  l_url :: "string option"
  l_title :: "string option"
  l_price_eur :: "rat option"
  l_currency :: "string option"
  l_mileage_km :: "rat option"
  l_year :: "int option"
  l_location :: "string option"
  l_description :: "string option"
  l_images :: "string option"
  l_specs :: "string option"
  l_model_id :: "int option"
  l_extracted_make :: "string option"
  l_extracted_model :: "string option"

record db =
  makers :: "maker list"
  makers_seq :: int
  models :: "model_row list"
  models_seq :: int
  prices :: "price_row list"
  listings :: "listing list"
  listings_seq :: int

definition empty_db :: db where
  "empty_db = \<lparr>makers = [], makers_seq = 1, models = [], models_seq = 1,
                prices = [], listings = [], listings_seq = 1\<rparr>"

section \<open>\<open>LIKE\<close> and \<open>ILIKE\<close>\<close>

text \<open>
  \<open>like_match pattern text\<close>: \<open>%\<close> stands for any run of characters, \<open>_\<close> for one
  character, and a backslash makes the next pattern character literal. A pattern that
  ends in a lone backslash matches no text (the database rejects it or reports no
  match; the seeding script catches the rejection and continues as if there were no
  match). \<open>ILIKE\<close> compares the lower-cased text with the lower-cased pattern.
\<close>

fun like_match :: "string \<Rightarrow> string \<Rightarrow> bool" where
  "like_match [] t = (t = [])"
| "like_match (p # ps) t =
     (if p = CHR ''%'' then
        like_match ps t \<or> (case t of [] \<Rightarrow> False | c # ts \<Rightarrow> like_match (p # ps) ts)
      else if p = CHR 0x5C then
        (case ps of
           [] \<Rightarrow> False
         | q # qs \<Rightarrow> (case t of [] \<Rightarrow> False | c # ts \<Rightarrow> c = q \<and> like_match qs ts))
      else if p = CHR ''_'' then
        (case t of [] \<Rightarrow> False | c # ts \<Rightarrow> like_match ps ts)
      else
        (case t of [] \<Rightarrow> False | c # ts \<Rightarrow> c = p \<and> like_match ps ts))"

definition ilike :: "string \<Rightarrow> string \<Rightarrow> bool" where
  "ilike text pattern = like_match (lower pattern) (lower text)"

text \<open>A nullable text column against a pattern: null is never a match.\<close>

definition ilike_opt :: "string option \<Rightarrow> string \<Rightarrow> bool" where
  "ilike_opt text pattern = (case text of None \<Rightarrow> False | Some t \<Rightarrow> ilike t pattern)"

section \<open>Reconciliation in \<open>seedListings\<close>\<close>

text \<open>\<open>SELECT id FROM makers WHERE name ILIKE $1 LIMIT 1\<close>, with the extracted make as
  the pattern.\<close>

definition find_maker :: "maker list \<Rightarrow> string \<Rightarrow> int option" where
  "find_maker mks mk =
     (case filter (\<lambda>r. ilike (mk_name r) mk) mks of [] \<Rightarrow> None | r # rs \<Rightarrow> Some (mk_id r))"

text \<open>\<open>SELECT id FROM models WHERE maker_id = $1 AND name ILIKE $2 LIMIT 1\<close>.\<close>

definition find_model :: "model_row list \<Rightarrow> int \<Rightarrow> string \<Rightarrow> int option" where
  "find_model ms makerId pattern =
     (case filter (\<lambda>r. m_maker_id r = makerId \<and> ilike (m_name r) pattern) ms of
        [] \<Rightarrow> None
      | r # rs \<Rightarrow> Some (m_id r))"

text \<open>
  The body of \<open>if (make && model)\<close> in \<open>seedListings\<close>: the model pattern is
  \<open>%\<close> + \<open>model.split(' ')[0]\<close> + \<open>%\<close>. A null or empty make or model attempts no
  lookup.
\<close>

definition match_model :: "db \<Rightarrow> make_model \<Rightarrow> int option" where
  "match_model d mm =
     (case (ex_make mm, ex_model mm) of
        (Some mk, Some mdl) \<Rightarrow>
          if mk = [] \<or> mdl = [] then None
          else
            (case find_maker (makers d) mk of
               None \<Rightarrow> None
             | Some makerId \<Rightarrow> find_model (models d) makerId (''%'' @ first_word mdl @ ''%''))
      | _ \<Rightarrow> None)"

section \<open>Catalog ingestion: \<open>getMakerId\<close>, \<open>getModelId\<close>, \<open>seedSales\<close>, \<open>seedPrices\<close>\<close>

text \<open>
  \<open>INSERT INTO makers (name) VALUES ($1) ON CONFLICT (name) DO UPDATE SET name =
  EXCLUDED.name RETURNING id\<close>. The constraint \<open>UNIQUE (name)\<close> compares names as they
  are stored, letter case included. The sequence advances whether or not the insert
  conflicts.
\<close>

definition upsert_maker :: "string \<Rightarrow> db \<Rightarrow> int \<times> db" where
  "upsert_maker name d =
     (case filter (\<lambda>r. mk_name r = name) (makers d) of
        r # rs \<Rightarrow>
          (mk_id r,
           d\<lparr>makers := map (\<lambda>x. if mk_name x = name then x\<lparr>mk_name := name\<rparr> else x) (makers d),
             makers_seq := makers_seq d + 1\<rparr>)
      | [] \<Rightarrow>
          (makers_seq d,
           d\<lparr>makers := makers d @ [\<lparr>mk_id = makers_seq d, mk_name = name\<rparr>],
             makers_seq := makers_seq d + 1\<rparr>))"

text \<open>
  \<open>INSERT INTO models (maker_id, name, genmodel_id) VALUES ($1, $2, $3) ON CONFLICT
  (maker_id, genmodel_id) DO UPDATE SET name = EXCLUDED.name RETURNING id\<close>.
\<close>

definition upsert_model :: "int \<Rightarrow> string \<Rightarrow> string \<Rightarrow> db \<Rightarrow> int \<times> db" where
  "upsert_model makerId name genmodelId d =
     (case filter (\<lambda>r. m_maker_id r = makerId \<and> m_genmodel_id r = genmodelId) (models d) of
        r # rs \<Rightarrow>
          (m_id r,
           d\<lparr>models := map (\<lambda>x. if m_maker_id x = makerId \<and> m_genmodel_id x = genmodelId
                                  then x\<lparr>m_name := name\<rparr> else x) (models d),
             models_seq := models_seq d + 1\<rparr>)
      | [] \<Rightarrow>
          (models_seq d,
           d\<lparr>models := models d @ [\<lparr>m_id = models_seq d, m_maker_id = makerId,
                                     m_name = name, m_genmodel_id = genmodelId\<rparr>],
             models_seq := models_seq d + 1\<rparr>))"

text \<open>
  \<open>INSERT INTO prices ... ON CONFLICT (model_id, year) DO UPDATE SET entry_price = ...,
  entry_price_eur = ...\<close>.
\<close>

definition upsert_price :: "price_row \<Rightarrow> db \<Rightarrow> db" where
  "upsert_price new d =
     (if list_ex (\<lambda>r. p_model_id r = p_model_id new \<and> p_year r = p_year new) (prices d)
      then d\<lparr>prices := map (\<lambda>x. if p_model_id x = p_model_id new \<and> p_year x = p_year new
                                  then x\<lparr>p_entry_price := p_entry_price new,
                                         p_entry_price_eur := p_entry_price_eur new\<rparr>
                                  else x) (prices d)\<rparr>
      else d\<lparr>prices := prices d @ [new]\<rparr>)"

text \<open>
  The seeding process: the database together with the two process-wide caches
  \<open>makerCache\<close> and \<open>modelCache\<close>. The key of \<open>modelCache\<close> is the text
  \<open>makerId::genmodelId\<close>; a maker id is a numeral, so the text determines the pair and
  the pair is used as the key.
\<close>

record ingest =
  ing_db :: db
  makerCache :: "string \<rightharpoonup> int"
  modelCache :: "int \<times> string \<rightharpoonup> int"

definition fresh_process :: "db \<Rightarrow> ingest" where
  "fresh_process d = \<lparr>ing_db = d, makerCache = Map.empty, modelCache = Map.empty\<rparr>"

definition getMakerId :: "string \<Rightarrow> ingest \<Rightarrow> int \<times> ingest" where
  "getMakerId makerName st =
     (let key = toUpperCase (trim makerName)
      in case makerCache st key of
           Some i \<Rightarrow> (i, st)
         | None \<Rightarrow>
             (let (i, d) = upsert_maker (trim makerName) (ing_db st)
              in (i, st\<lparr>ing_db := d, makerCache := (makerCache st)(key \<mapsto> i)\<rparr>)))"

definition getModelId :: "int \<Rightarrow> string \<Rightarrow> string \<Rightarrow> ingest \<Rightarrow> int \<times> ingest" where
  "getModelId makerId modelName genmodelId st =
     (let cacheKey = (makerId, genmodelId)
      in case modelCache st cacheKey of
           Some i \<Rightarrow> (i, st)
         | None \<Rightarrow>
             (let (i, d) = upsert_model makerId (trim modelName) (trim genmodelId) (ing_db st)
              in (i, st\<lparr>ing_db := d, modelCache := (modelCache st)(cacheKey \<mapsto> i)\<rparr>)))"

text \<open>A row of the sales file: the columns \<open>Maker\<close>, \<open>Genmodel\<close>, \<open>Genmodel_ID\<close>.\<close>

record sales_record =
  s_Maker :: string
  s_Genmodel :: string
  s_Genmodel_ID :: string

text \<open>
  A row of the price file after the column fallbacks (\<open>maker_canonical || Maker\<close> and so
  on) and the numeric conversions; an empty text is the script's falsy value.
\<close>

record price_record =
  pr_makerName :: string
  pr_modelName :: string
  pr_genmodelId :: string
  pr_year :: "int option"
  pr_entryPrice :: "rat option"
  pr_entryPriceEur :: "rat option"

definition seedSales_row :: "sales_record \<Rightarrow> ingest \<Rightarrow> ingest" where
  "seedSales_row r st =
     (let (makerId, st1) = getMakerId (s_Maker r) st;
          (modelId, st2) = getModelId makerId (s_Genmodel r) (s_Genmodel_ID r) st1
      in st2)"

definition seedPrices_row :: "price_record \<Rightarrow> ingest \<Rightarrow> ingest" where
  "seedPrices_row r st =
     (if pr_makerName r = [] \<or> pr_modelName r = [] \<or> pr_genmodelId r = [] then st
      else
        (let (makerId, st1) = getMakerId (pr_makerName r) st;
             (modelId, st2) = getModelId makerId (pr_modelName r) (pr_genmodelId r) st1
         in case pr_year r of
              None \<Rightarrow> st2
            | Some y \<Rightarrow>
                if y = 0 then st2
                else st2\<lparr>ing_db := upsert_price
                                      \<lparr>p_model_id = modelId, p_year = y,
                                       p_entry_price = pr_entryPrice r,
                                       p_entry_price_eur = pr_entryPriceEur r\<rparr> (ing_db st2)\<rparr>))"

definition seedSales :: "sales_record list \<Rightarrow> ingest \<Rightarrow> ingest" where
  "seedSales rows st = foldl (\<lambda>s r. seedSales_row r s) st rows"

definition seedPrices :: "price_record list \<Rightarrow> ingest \<Rightarrow> ingest" where
  "seedPrices rows st = foldl (\<lambda>s r. seedPrices_row r s) st rows"

text \<open>Catalog ingestion as \<open>seedAll\<close> runs it: the sales file, then the price file.\<close>

definition seedCatalog :: "sales_record list \<Rightarrow> price_record list \<Rightarrow> ingest \<Rightarrow> ingest" where
  "seedCatalog srows prows st = seedPrices prows (seedSales srows st)"

section \<open>Listing ingestion: \<open>seedListings\<close>\<close>

text \<open>
  A row of the listings file after the numeric conversions (\<open>parseFloat\<close>,
  \<open>parseIntOrNull\<close>, the re-serialised \<open>specs\<close>); the text columns are as read.
\<close>

record csv_listing =
  c_url :: string
  c_title :: string
  c_price_eur :: "rat option"
  c_currency :: string
  c_mileage_km :: "rat option"
  c_year :: "int option"
  c_location :: string
  c_description :: string
  c_images :: string
  c_specs :: "string option"

text \<open>\<open>x || null\<close> on a text.\<close>

definition or_null :: "string \<Rightarrow> string option" where
  "or_null s = (if s = [] then None else Some s)"

text \<open>
  \<open>INSERT INTO listings (...) VALUES (...) ON CONFLICT (url) DO UPDATE SET title,
  price_eur, mileage_km, year, model_id\<close>. A null url conflicts with nothing.
\<close>

definition upsert_listing :: "listing \<Rightarrow> db \<Rightarrow> db" where
  "upsert_listing new d =
     (if l_url new \<noteq> None \<and> list_ex (\<lambda>r. l_url r = l_url new) (listings d)
      then d\<lparr>listings := map (\<lambda>x. if l_url x = l_url new
                                    then x\<lparr>l_title := l_title new,
                                           l_price_eur := l_price_eur new,
                                           l_mileage_km := l_mileage_km new,
                                           l_year := l_year new,
                                           l_model_id := l_model_id new\<rparr>
                                    else x) (listings d),
              listings_seq := listings_seq d + 1\<rparr>
      else d\<lparr>listings := listings d @ [new\<lparr>l_id := listings_seq d\<rparr>],
              listings_seq := listings_seq d + 1\<rparr>)"

text \<open>One iteration of the loop of \<open>seedListings\<close>.\<close>

definition seedListings_row :: "csv_listing \<Rightarrow> db \<Rightarrow> db" where
  "seedListings_row r d =
     (let mm = extractMakeModel (Some (c_title r));
          modelId = match_model d mm
      in upsert_listing
           \<lparr>l_id = listings_seq d,
            l_url = or_null (c_url r),
            l_title = or_null (c_title r),
            l_price_eur = c_price_eur r,
            l_currency = or_null (c_currency r),
            l_mileage_km = c_mileage_km r,
            l_year = c_year r,
            l_location = or_null (c_location r),
            l_description = or_null (c_description r),
            l_images = or_null (c_images r),
            l_specs = c_specs r,
            l_model_id = modelId,
            l_extracted_make = ex_make mm,
            l_extracted_model = ex_model mm\<rparr> d)"

definition seedListings :: "csv_listing list \<Rightarrow> db \<Rightarrow> db" where
  "seedListings rows d = foldl (\<lambda>s r. seedListings_row r s) d rows"

section \<open>The price-delta query: \<open>GET /api/insights/price-delta\<close>\<close>

text \<open>
  What can make a statement fail: a division by zero in an expression, a negative
  \<open>LIMIT\<close> or \<open>OFFSET\<close>, or a statement text that does not parse. The handler catches
  the failure and answers with status 500.
\<close>

datatype sql_error = Division_by_zero | Negative_limit | Negative_offset | Syntax_error

text \<open>
  The request parameters after \<open>Number(...)\<close>. A filter is \<open>None\<close> when the handler
  does not push it (an absent, or for the text and price filters an empty, parameter).
\<close>

record price_query =
  q_maker :: "string option"
  q_model :: "string option"
  q_minPrice :: "rat option"
  q_maxPrice :: "rat option"
  q_minDiscount :: "rat option"
  q_maxDiscount :: "rat option"
  q_limit :: int
  q_offset :: int
  q_sortBy :: string

definition default_query :: price_query where
  "default_query = \<lparr>q_maker = None, q_model = None, q_minPrice = None, q_maxPrice = None,
                      q_minDiscount = None, q_maxDiscount = None, q_limit = 50, q_offset = 0,
                      q_sortBy = ''price_delta_percent''\<rparr>"

subsection \<open>The closest historical price\<close>

text \<open>\<open>ABS(p2.year - COALESCE(l.year, 0))\<close>.\<close>

definition year_distance :: "int option \<Rightarrow> price_row \<Rightarrow> int" where
  "year_distance ly p = \<bar>p_year p - (case ly of None \<Rightarrow> 0 | Some y \<Rightarrow> y)\<bar>"

text \<open>
  \<open>ORDER BY ABS(p2.year - COALESCE(l.year, 0)) ASC LIMIT 1\<close>: a row at the least
  distance. The statement names no second sort key; among rows at the same distance
  the one that the scan returns first is kept.
\<close>

fun closest_year :: "int option \<Rightarrow> price_row list \<Rightarrow> price_row option" where
  "closest_year ly [] = None"
| "closest_year ly (p # ps) =
     (case closest_year ly ps of
        None \<Rightarrow> Some p
      | Some q \<Rightarrow> if year_distance ly p \<le> year_distance ly q then Some p else Some q)"

text \<open>
  \<open>(p.entry_price_eur - l.price_eur) / p.entry_price_eur * 100\<close>: null when an operand
  is null, a failure when the divisor is zero. The quotient is taken exactly.
\<close>

definition discount_percent :: "rat option \<Rightarrow> rat option \<Rightarrow> sql_error + rat option" where
  "discount_percent entry price =
     (case (entry, price) of
        (Some e, Some l) \<Rightarrow> if e = 0 then Inl Division_by_zero else Inr (Some ((e - l) / e * 100))
      | _ \<Rightarrow> Inr None)"

text \<open>\<open>ROUND(x, 2)\<close> on \<open>NUMERIC\<close>: to the nearest hundredth, a tie away from zero.\<close>

definition round2 :: "rat \<Rightarrow> rat" where
  "round2 x = (if 0 \<le> x then of_int \<lfloor>x * 100 + 1 / 2\<rfloor> / 100
               else - (of_int \<lfloor>- x * 100 + 1 / 2\<rfloor> / 100))"

text \<open>\<open>p.entry_price_eur - l.price_eur\<close>.\<close>

definition price_delta :: "rat option \<Rightarrow> rat option \<Rightarrow> rat option" where
  "price_delta entry price =
     (case (entry, price) of (Some e, Some l) \<Rightarrow> Some (e - l) | _ \<Rightarrow> None)"

subsection \<open>The joins\<close>

record joined =
  j_l :: listing
  j_m :: "model_row option"
  j_mk :: "maker option"
  j_p :: "price_row option"

text \<open>
  \<open>listings l LEFT JOIN models m ON m.id = l.model_id LEFT JOIN makers mk ON mk.id =
  m.maker_id LEFT JOIN LATERAL (... FROM prices p2 WHERE p2.model_id = m.id ...) p\<close>.
  The ids are primary keys, so each join adds at most one row.
\<close>

definition join_listing :: "db \<Rightarrow> listing \<Rightarrow> joined" where
  "join_listing d l =
     (let m = (case l_model_id l of
                 None \<Rightarrow> None
               | Some i \<Rightarrow> find (\<lambda>r. m_id r = i) (models d));
          mk = (case m of
                  None \<Rightarrow> None
                | Some r \<Rightarrow> find (\<lambda>k. mk_id k = m_maker_id r) (makers d));
          p = (case m of
                 None \<Rightarrow> None
               | Some r \<Rightarrow> closest_year (l_year l) (filter (\<lambda>x. p_model_id x = m_id r) (prices d)))
      in \<lparr>j_l = l, j_m = m, j_mk = mk, j_p = p\<rparr>)"

definition j_entry_price_eur :: "joined \<Rightarrow> rat option" where
  "j_entry_price_eur j = (case j_p j of None \<Rightarrow> None | Some p \<Rightarrow> p_entry_price_eur p)"

subsection \<open>The \<open>WHERE\<close> clause\<close>

text \<open>
  A condition is true (\<open>Inr True\<close>), not true (false or null), or fails. The conditions
  are joined by \<open>AND\<close> in the order the handler pushes them and are tried in that
  order, up to the first one that is not true.
\<close>

fun all_true :: "(sql_error + bool) list \<Rightarrow> sql_error + bool" where
  "all_true [] = Inr True"
| "all_true (c # cs) =
     (case c of Inl e \<Rightarrow> Inl e | Inr b \<Rightarrow> if b then all_true cs else Inr False)"

definition text_filter :: "string option \<Rightarrow> string option \<Rightarrow> string option \<Rightarrow> (sql_error + bool) list" where
  "text_filter param extracted matched =
     (case param of
        None \<Rightarrow> []
      | Some v \<Rightarrow>
          if v = [] then []
          else [Inr (ilike_opt extracted (''%'' @ v @ ''%'') \<or> ilike_opt matched (''%'' @ v @ ''%''))])"

definition min_filter :: "rat option \<Rightarrow> rat option \<Rightarrow> (sql_error + bool) list" where
  "min_filter param x =
     (case param of
        None \<Rightarrow> []
      | Some b \<Rightarrow> [Inr (case x of None \<Rightarrow> False | Some v \<Rightarrow> b \<le> v)])"

definition max_filter :: "rat option \<Rightarrow> rat option \<Rightarrow> (sql_error + bool) list" where
  "max_filter param x =
     (case param of
        None \<Rightarrow> []
      | Some b \<Rightarrow> [Inr (case x of None \<Rightarrow> False | Some v \<Rightarrow> v \<le> b)])"

definition min_discount_filter :: "rat option \<Rightarrow> sql_error + rat option \<Rightarrow> (sql_error + bool) list" where
  "min_discount_filter param x =
     (case param of
        None \<Rightarrow> []
      | Some b \<Rightarrow>
          [case x of Inl e \<Rightarrow> Inl e | Inr None \<Rightarrow> Inr False | Inr (Some v) \<Rightarrow> Inr (b \<le> v)])"

definition max_discount_filter :: "rat option \<Rightarrow> sql_error + rat option \<Rightarrow> (sql_error + bool) list" where
  "max_discount_filter param x =
     (case param of
        None \<Rightarrow> []
      | Some b \<Rightarrow>
          [case x of Inl e \<Rightarrow> Inl e | Inr None \<Rightarrow> Inr False | Inr (Some v) \<Rightarrow> Inr (v \<le> b)])"

definition filters :: "price_query \<Rightarrow> joined \<Rightarrow> (sql_error + bool) list" where
  "filters q j =
     text_filter (q_maker q) (l_extracted_make (j_l j)) (map_option mk_name (j_mk j)) @
     text_filter (q_model q) (l_extracted_model (j_l j)) (map_option m_name (j_m j)) @
     min_filter (q_minPrice q) (l_price_eur (j_l j)) @
     max_filter (q_maxPrice q) (l_price_eur (j_l j)) @
     min_discount_filter (q_minDiscount q)
       (discount_percent (j_entry_price_eur j) (l_price_eur (j_l j))) @
     max_discount_filter (q_maxDiscount q)
       (discount_percent (j_entry_price_eur j) (l_price_eur (j_l j))) @
     [Inr (j_entry_price_eur j \<noteq> None), Inr (l_price_eur (j_l j) \<noteq> None)]"

definition whereClause :: "price_query \<Rightarrow> joined \<Rightarrow> sql_error + bool" where
  "whereClause q j = all_true (filters q j)"

subsection \<open>The select list and the common table expression \<open>price_matches\<close>\<close>

record price_match =
  pm_id :: int
  pm_url :: "string option"
  pm_title :: "string option"
  pm_listing_price :: "rat option"
  pm_listing_year :: "int option"
  pm_mileage_km :: "rat option"
  pm_original_price :: "rat option"
  pm_original_year :: "int option"
  pm_make :: "string option"
  pm_model :: "string option"
  pm_matched_maker :: "string option"
  pm_matched_model :: "string option"
  pm_price_delta :: "rat option"
  pm_price_delta_percent :: "rat option"

definition select_row :: "joined \<Rightarrow> sql_error + price_match" where
  "select_row j =
     (case discount_percent (j_entry_price_eur j) (l_price_eur (j_l j)) of
        Inl e \<Rightarrow> Inl e
      | Inr pct \<Rightarrow>
          Inr \<lparr>pm_id = l_id (j_l j),
               pm_url = l_url (j_l j),
               pm_title = l_title (j_l j),
               pm_listing_price = l_price_eur (j_l j),
               pm_listing_year = l_year (j_l j),
               pm_mileage_km = l_mileage_km (j_l j),
               pm_original_price = j_entry_price_eur j,
               pm_original_year = map_option p_year (j_p j),
               pm_make = l_extracted_make (j_l j),
               pm_model = l_extracted_model (j_l j),
               pm_matched_maker = map_option mk_name (j_mk j),
               pm_matched_model = map_option m_name (j_m j),
               pm_price_delta = price_delta (j_entry_price_eur j) (l_price_eur (j_l j)),
               pm_price_delta_percent = map_option round2 pct\<rparr>)"

text \<open>The rows of the joins that pass the \<open>WHERE\<close> clause, with the select list computed.\<close>

fun price_matches :: "price_query \<Rightarrow> db \<Rightarrow> listing list \<Rightarrow> sql_error + price_match list" where
  "price_matches q d [] = Inr []"
| "price_matches q d (l # ls) =
     (case whereClause q (join_listing d l) of
        Inl e \<Rightarrow> Inl e
      | Inr b \<Rightarrow>
          if b then
            (case select_row (join_listing d l) of
               Inl e \<Rightarrow> Inl e
             | Inr r \<Rightarrow>
                 (case price_matches q d ls of Inl e \<Rightarrow> Inl e | Inr rs \<Rightarrow> Inr (r # rs)))
          else price_matches q d ls)"

text \<open>\<open>SELECT DISTINCT ON (l.id)\<close>: one row for each id, the first one.\<close>

fun distinct_on :: "('a \<Rightarrow> int) \<Rightarrow> int list \<Rightarrow> 'a list \<Rightarrow> 'a list" where
  "distinct_on f seen [] = []"
| "distinct_on f seen (x # xs) =
     (if f x \<in> set seen then distinct_on f seen xs else x # distinct_on f (f x # seen) xs)"

subsection \<open>\<open>ORDER BY\<close>\<close>

datatype sort_order = ASC | DESC

datatype order_by = Column string | Not_a_column

text \<open>\<open>sortBy.startsWith('-') ? 'DESC' : 'ASC'\<close> and \<open>sortBy.replace(/^-/, '')\<close>.\<close>

definition sortOrder :: "string \<Rightarrow> sort_order" where
  "sortOrder sortBy = (if take 1 sortBy = ''-'' then DESC else ASC)"

definition sortColumn :: "string \<Rightarrow> string" where
  "sortColumn sortBy = (if take 1 sortBy = ''-'' then drop 1 sortBy else sortBy)"

definition validSortColumns :: "(string \<times> string) list" where
  "validSortColumns =
     [(''price_delta_percent'', ''price_delta_percent''),
      (''price_delta'', ''price_delta''),
      (''price_eur'', ''listing_price''),
      (''entry_price_eur'', ''original_price''),
      (''listing_price'', ''listing_price''),
      (''original_price'', ''original_price''),
      (''listing_year'', ''listing_year''),
      (''mileage_km'', ''mileage_km''),
      (''title'', ''title'')]"

text \<open>
  \<open>validSortColumns\<close> is an object literal, so a lookup by a name that is not one of its
  own keys still finds the properties it inherits from \<open>Object.prototype\<close>. Each of
  them is a function or an object, hence truthy, and its text is not a column name.
\<close>

definition inherited_properties :: "string list" where
  "inherited_properties =
     [''constructor'', ''hasOwnProperty'', ''isPrototypeOf'', ''propertyIsEnumerable'',
      ''toLocaleString'', ''toString'', ''valueOf'', ''__proto__'',
      ''__defineGetter__'', ''__defineSetter__'', ''__lookupGetter__'', ''__lookupSetter__'']"

text \<open>\<open>validSortColumns[sortColumn] || 'price_delta_percent'\<close>.\<close>

definition orderBy :: "string \<Rightarrow> order_by" where
  "orderBy sortBy =
     (case map_of validSortColumns (sortColumn sortBy) of
        Some c \<Rightarrow> Column c
      | None \<Rightarrow>
          if sortColumn sortBy \<in> set inherited_properties then Not_a_column
          else Column ''price_delta_percent'')"

datatype sql_value = Null | Num rat | Text string

definition num_value :: "rat option \<Rightarrow> sql_value" where
  "num_value x = (case x of None \<Rightarrow> Null | Some v \<Rightarrow> Num v)"

definition text_value :: "string option \<Rightarrow> sql_value" where
  "text_value x = (case x of None \<Rightarrow> Null | Some v \<Rightarrow> Text v)"

text \<open>The value of an output column of \<open>price_matches\<close>.\<close>

definition column_value :: "string \<Rightarrow> price_match \<Rightarrow> sql_value" where
  "column_value c r =
     (if c = ''price_delta_percent'' then num_value (pm_price_delta_percent r)
      else if c = ''price_delta'' then num_value (pm_price_delta r)
      else if c = ''listing_price'' then num_value (pm_listing_price r)
      else if c = ''original_price'' then num_value (pm_original_price r)
      else if c = ''listing_year'' then num_value (map_option of_int (pm_listing_year r))
      else if c = ''mileage_km'' then num_value (pm_mileage_km r)
      else if c = ''title'' then text_value (pm_title r)
      else Null)"

text \<open>
  The order of two values that are not null; texts are compared character by character.
  A column has one type, so a number is never compared with a text; the two clauses for
  that case only make the order total.
\<close>

fun value_le :: "sql_value \<Rightarrow> sql_value \<Rightarrow> bool" where
  "value_le (Num a) (Num b) = (a \<le> b)"
| "value_le (Text a) (Text b) = (a \<le> b)"
| "value_le (Num a) (Text b) = True"
| "value_le (Text a) (Num b) = False"
| "value_le Null b = (b = Null)"
| "value_le a Null = True"

text \<open>\<open>ORDER BY c ASC|DESC NULLS LAST\<close>: whether \<open>a\<close> may stand before \<open>b\<close>.\<close>

definition sorts_before :: "sort_order \<Rightarrow> sql_value \<Rightarrow> sql_value \<Rightarrow> bool" where
  "sorts_before ord a b =
     (if b = Null then True
      else if a = Null then False
      else (case ord of ASC \<Rightarrow> value_le a b | DESC \<Rightarrow> value_le b a))"

text \<open>
  The sort itself: rows with equal keys stay in the order in which the sort receives
  them.
\<close>

fun insert_row :: "('a \<Rightarrow> 'a \<Rightarrow> bool) \<Rightarrow> 'a \<Rightarrow> 'a list \<Rightarrow> 'a list" where
  "insert_row le x [] = [x]"
| "insert_row le x (y # ys) = (if le x y then x # y # ys else y # insert_row le x ys)"

definition sort_rows :: "('a \<Rightarrow> 'a \<Rightarrow> bool) \<Rightarrow> 'a list \<Rightarrow> 'a list" where
  "sort_rows le xs = foldr (insert_row le) xs []"

definition order_rows :: "string \<Rightarrow> sort_order \<Rightarrow> price_match list \<Rightarrow> price_match list" where
  "order_rows c ord rows =
     sort_rows (\<lambda>x y. sorts_before ord (column_value c x) (column_value c y)) rows"

subsection \<open>The two statements and the response\<close>

text \<open>
  The page statement: \<open>SELECT * FROM price_matches WHERE price_delta_percent IS NOT NULL
  ORDER BY ... NULLS LAST LIMIT $n OFFSET $m\<close>.
\<close>

definition page_query :: "price_query \<Rightarrow> db \<Rightarrow> sql_error + price_match list" where
  "page_query q d =
     (case orderBy (q_sortBy q) of
        Not_a_column \<Rightarrow> Inl Syntax_error
      | Column c \<Rightarrow>
          if q_limit q < 0 then Inl Negative_limit
          else if q_offset q < 0 then Inl Negative_offset
          else
            (case price_matches q d (listings d) of
               Inl e \<Rightarrow> Inl e
             | Inr rows \<Rightarrow>
                 Inr (take (nat (q_limit q)) (drop (nat (q_offset q))
                        (order_rows c (sortOrder (q_sortBy q))
                           (filter (\<lambda>r. pm_price_delta_percent r \<noteq> None)
                              (distinct_on pm_id [] rows)))))))"

text \<open>
  The count statement: the same joins and \<open>WHERE\<close> clause, a select list without
  arithmetic, \<open>SELECT COUNT(*) ... WHERE entry_price_eur IS NOT NULL AND price_eur IS NOT
  NULL\<close>, and neither limit nor offset.
\<close>

fun count_matches :: "price_query \<Rightarrow> db \<Rightarrow> listing list \<Rightarrow> sql_error + joined list" where
  "count_matches q d [] = Inr []"
| "count_matches q d (l # ls) =
     (case whereClause q (join_listing d l) of
        Inl e \<Rightarrow> Inl e
      | Inr b \<Rightarrow>
          (case count_matches q d ls of
             Inl e \<Rightarrow> Inl e
           | Inr rs \<Rightarrow> Inr (if b then join_listing d l # rs else rs)))"

definition countQuery :: "price_query \<Rightarrow> db \<Rightarrow> sql_error + nat" where
  "countQuery q d =
     (case count_matches q d (listings d) of
        Inl e \<Rightarrow> Inl e
      | Inr rows \<Rightarrow>
          Inr (length (filter (\<lambda>j. j_entry_price_eur j \<noteq> None \<and> l_price_eur (j_l j) \<noteq> None)
                         (distinct_on (\<lambda>j. l_id (j_l j)) [] rows))))"

text \<open>
  An element of \<open>data\<close> in the response. Numeric columns arrive as non-empty texts and
  pass \<open>x ? Number(x) : null\<close> unchanged; integer columns arrive as numbers, so a year
  \<open>0\<close> becomes null; \<open>r.make || r.matched_maker\<close> falls back on a null or empty text.
\<close>

record delta_item =
  di_id :: int
  di_url :: "string option"
  di_title :: "string option"
  di_listing_price :: "rat option"
  di_listing_year :: "int option"
  di_mileage_km :: "rat option"
  di_original_price :: "rat option"
  di_original_year :: "int option"
  di_make :: "string option"
  di_model :: "string option"
  di_price_delta :: "rat option"
  di_price_delta_percent :: "rat option"

definition truthy_int :: "int option \<Rightarrow> int option" where
  "truthy_int x = (case x of None \<Rightarrow> None | Some v \<Rightarrow> if v = 0 then None else Some v)"

definition or_else :: "string option \<Rightarrow> string option \<Rightarrow> string option" where
  "or_else a b = (case a of None \<Rightarrow> b | Some v \<Rightarrow> if v = [] then b else Some v)"

definition to_item :: "price_match \<Rightarrow> delta_item" where
  "to_item r =
     \<lparr>di_id = pm_id r,
      di_url = pm_url r,
      di_title = pm_title r,
      di_listing_price = pm_listing_price r,
      di_listing_year = truthy_int (pm_listing_year r),
      di_mileage_km = pm_mileage_km r,
      di_original_price = pm_original_price r,
      di_original_year = truthy_int (pm_original_year r),
      di_make = or_else (pm_make r) (pm_matched_maker r),
      di_model = or_else (pm_model r) (pm_matched_model r),
      di_price_delta = pm_price_delta r,
      di_price_delta_percent = pm_price_delta_percent r\<rparr>"

record response =
  res_data :: "delta_item list"
  res_total :: nat
  res_limit :: int
  res_offset :: int

text \<open>The handler: both statements must succeed.\<close>

definition price_delta_endpoint :: "price_query \<Rightarrow> db \<Rightarrow> sql_error + response" where
  "price_delta_endpoint q d =
     (case page_query q d of
        Inl e \<Rightarrow> Inl e
      | Inr rows \<Rightarrow>
          (case countQuery q d of
             Inl e \<Rightarrow> Inl e
           | Inr n \<Rightarrow>
               Inr \<lparr>res_data = map to_item rows, res_total = n,
                    res_limit = q_limit q, res_offset = q_offset q\<rparr>))"

subsection \<open>The delta of one listing\<close>

text \<open>
  What the statement computes for one listing, as a function of the listing's price and
  year and of the price rows of its reconciled model, with none of the optional filters:
  the lateral join picks the closest year, the \<open>WHERE\<close> clause drops a null reference or
  listing price, and the select list computes the delta and the percentage. \<open>Inr None\<close>
  is the absent result, \<open>Inl\<close> a failed statement.
\<close>

record delta_result =
  referencePrice :: rat
  referenceYear :: int
  delta :: rat
  deltaPercent :: rat

definition computeDelta :: "rat option \<Rightarrow> int option \<Rightarrow> price_row list \<Rightarrow> sql_error + delta_result option" where
  "computeDelta listingPrice listingYear referencePrices =
     (case closest_year listingYear referencePrices of
        None \<Rightarrow> Inr None
      | Some p \<Rightarrow>
          if p_entry_price_eur p = None \<or> listingPrice = None then Inr None
          else
            (case discount_percent (p_entry_price_eur p) listingPrice of
               Inl e \<Rightarrow> Inl e
             | Inr pct \<Rightarrow>
                 Inr (Some \<lparr>referencePrice = the (p_entry_price_eur p),
                            referenceYear = p_year p,
                            delta = the (price_delta (p_entry_price_eur p) listingPrice),
                            deltaPercent = round2 (the pct)\<rparr>)))"

section \<open>Notions for reasoning about ingestion\<close>

text \<open>
  The id that an upsert finds for a natural key: the first row with the maker name, or
  with the pair of maker id and \<open>genmodel_id\<close>. \<open>model_key\<close> is a model row without its
  name, the part of a row that an upsert never changes. \<open>covers a b\<close> says that every
  key found in \<open>a\<close> is found in \<open>b\<close> with the same id; \<open>catalog_step\<close> is the pair of
  calls that both seeding loops make for a row. \<open>first_occurrences\<close> lists, for names
  compared by \<open>maker_key\<close>, the trimmed first name of each key, and
  \<open>source_maker_names\<close> the maker names that a run requests, in order.
\<close>

definition maker_lookup :: "maker list \<Rightarrow> string \<Rightarrow> int option" where
  "maker_lookup mks name = map_option mk_id (find (\<lambda>r. mk_name r = name) mks)"

definition model_key :: "model_row \<Rightarrow> int \<times> int \<times> string" where
  "model_key r = (m_id r, m_maker_id r, m_genmodel_id r)"

definition model_lookup :: "(int \<times> int \<times> string) list \<Rightarrow> int \<Rightarrow> string \<Rightarrow> int option" where
  "model_lookup ks makerId g =
     map_option fst (find (\<lambda>k. fst (snd k) = makerId \<and> snd (snd k) = g) ks)"

definition same_caches :: "ingest \<Rightarrow> ingest \<Rightarrow> bool" where
  "same_caches a b \<longleftrightarrow> makerCache a = makerCache b \<and> modelCache a = modelCache b"

definition catalog_keys :: "ingest \<Rightarrow> maker list \<times> (int \<times> int \<times> string) list" where
  "catalog_keys st = (makers (ing_db st), map model_key (models (ing_db st)))"

definition covers :: "ingest \<Rightarrow> ingest \<Rightarrow> bool" where
  "covers a b \<longleftrightarrow>
     (\<forall>x i. maker_lookup (fst (catalog_keys a)) x = Some i
              \<longrightarrow> maker_lookup (fst (catalog_keys b)) x = Some i) \<and>
     (\<forall>m g i. model_lookup (snd (catalog_keys a)) m g = Some i
              \<longrightarrow> model_lookup (snd (catalog_keys b)) m g = Some i)"

definition catalog_step :: "string \<Rightarrow> string \<Rightarrow> string \<Rightarrow> ingest \<Rightarrow> ingest" where
  "catalog_step n m g st =
     snd (getModelId (fst (getMakerId n st)) m g (snd (getMakerId n st)))"

definition maker_key :: "string \<Rightarrow> string" where
  "maker_key n = toUpperCase (trim n)"

fun first_occurrences :: "string list \<Rightarrow> string list \<Rightarrow> string list" where
  "first_occurrences seen [] = []"
| "first_occurrences seen (n # ns) =
     (if maker_key n \<in> set seen then first_occurrences seen ns
      else trim n # first_occurrences (maker_key n # seen) ns)"

definition source_maker_names :: "sales_record list \<Rightarrow> price_record list \<Rightarrow> string list" where
  "source_maker_names srows prows =
     map s_Maker srows @
     map pr_makerName
       (filter (\<lambda>r. \<not> (pr_makerName r = [] \<or> pr_modelName r = [] \<or> pr_genmodelId r = [])) prows)"

text \<open>
  The makers table and the maker cache after the names \<open>done\<close> have been requested, in a
  process that started with no maker and an empty cache.
\<close>

definition makers_after :: "ingest \<Rightarrow> string list \<Rightarrow> bool" where
  "makers_after st done \<longleftrightarrow>
     dom (makerCache st) = maker_key ` set done \<and>
     map mk_name (makers (ing_db st)) = first_occurrences [] done"

section \<open>Notions for stating what the matcher finds\<close>





section \<open>Notions for stating what the extractor returns\<close>

text \<open>
  A token is a non-empty text without whitespace. \<open>after_decimal\<close> reads a decimal
  number (digits, a dot, digits) at the start of a token and returns what follows it.
  \<open>engine_tokens\<close> says that a list of tokens starts with such a number followed by a
  letter of either case, either in the same token or as the first character of the next
  one. \<open>cut_engine\<close> keeps the tokens before the first place where that holds, and
  \<open>tail_join\<close> writes a space before each token.
\<close>

definition is_token :: "string \<Rightarrow> bool" where
  "is_token q = (q \<noteq> [] \<and> \<not> list_ex is_space q)"

definition after_decimal :: "string \<Rightarrow> string option" where
  "after_decimal tok =
     (if tok = [] \<or> \<not> is_digit (hd tok) then None
      else
        (case dropWhile is_digit tok of
           [] \<Rightarrow> None
         | c # r \<Rightarrow>
             if c \<noteq> CHR ''.'' \<or> r = [] \<or> \<not> is_digit (hd r) then None
             else Some (dropWhile is_digit r)))"

definition engine_tokens :: "string list \<Rightarrow> bool" where
  "engine_tokens ts =
     (case ts of
        [] \<Rightarrow> False
      | tok # rest \<Rightarrow>
          (case after_decimal tok of
             None \<Rightarrow> False
           | Some r \<Rightarrow>
               if r = [] then (case rest of [] \<Rightarrow> False | nxt # others \<Rightarrow> nxt \<noteq> [] \<and> is_letter (hd nxt))
               else is_letter (hd r)))"

fun cut_engine :: "string list \<Rightarrow> string list" where
  "cut_engine [] = []"
| "cut_engine (q # qs) = (if engine_tokens (q # qs) then [] else q # cut_engine qs)"

fun tail_join :: "string list \<Rightarrow> string" where
  "tail_join [] = []"
| "tail_join (q # qs) = CHR '' '' # q @ tail_join qs"

section \<open>Notions for stating what a page holds\<close>

text \<open>
  A listing participates in a request when its joined row passes the \<open>WHERE\<close> clause.
  \<open>ordered_matches\<close> is the whole ordered result of the page statement before \<open>LIMIT\<close>
  and \<open>OFFSET\<close>, and \<open>page_data q d n k\<close> is the \<open>data\<close> of the response to the request
  \<open>q\<close> with the limit \<open>n\<close> and the offset \<open>k * n\<close>, page \<open>k\<close> for the page size \<open>n\<close>.
  Rows with equal sort keys keep one order in every request.
\<close>

definition participates :: "price_query \<Rightarrow> db \<Rightarrow> listing \<Rightarrow> bool" where
  "participates q d l \<longleftrightarrow> whereClause q (join_listing d l) = Inr True"



section \<open>Example data\<close>

text \<open>
  A catalog with two makers and a model of each, a listing of the first model, a listing
  without a model, and a row of the listings file that carries the same url with another title and price.
\<close>

definition example_listing :: listing where
  "example_listing =
     \<lparr>l_id = 1, l_url = Some ''https://cars.example/1'', l_title = Some ''Skoda Octavia Combi'',
      l_price_eur = Some 18000, l_currency = Some ''EUR'', l_mileage_km = Some 90000,
      l_year = Some 2015, l_location = Some ''Lisboa'', l_description = None,
      l_images = None, l_specs = None, l_model_id = Some 1,
      l_extracted_make = Some ''Skoda'', l_extracted_model = Some ''Octavia Combi''\<rparr>"

definition example_unmatched :: listing where
  "example_unmatched =
     \<lparr>l_id = 2, l_url = Some ''https://cars.example/2'', l_title = Some ''Trabant'',
      l_price_eur = Some 900, l_currency = Some ''EUR'', l_mileage_km = None,
      l_year = None, l_location = None, l_description = None,
      l_images = None, l_specs = None, l_model_id = None,
      l_extracted_make = Some ''Trabant'', l_extracted_model = None\<rparr>"

definition example_db :: db where
  "example_db =
     \<lparr>makers = [\<lparr>mk_id = 1, mk_name = ''Skoda''\<rparr>, \<lparr>mk_id = 2, mk_name = ''Land Rover''\<rparr>],
      makers_seq = 3,
      models = [\<lparr>m_id = 1, m_maker_id = 1, m_name = ''Octavia'', m_genmodel_id = ''81_4''\<rparr>,
                \<lparr>m_id = 2, m_maker_id = 2, m_name = ''Range Rover'', m_genmodel_id = ''47_2''\<rparr>],
      models_seq = 3,
      prices = [\<lparr>p_model_id = 1, p_year = 2014, p_entry_price = None,
                 p_entry_price_eur = Some 20000\<rparr>],
      listings = [example_listing, example_unmatched], listings_seq = 3\<rparr>"

definition example_record :: csv_listing where
  "example_record =
     \<lparr>c_url = ''https://cars.example/1'', c_title = ''BMW X5 3.0 d'',
      c_price_eur = Some 17500, c_currency = ''USD'', c_mileage_km = Some 95000,
      c_year = Some 2016, c_location = ''Porto'', c_description = ''sold as seen'',
      c_images = [], c_specs = None\<rparr>"

definition example_sales :: "sales_record list" where
  "example_sales =
     [\<lparr>s_Maker = ''BMW'', s_Genmodel = ''3 Series'', s_Genmodel_ID = ''8_1''\<rparr>,
      \<lparr>s_Maker = ''bmw'', s_Genmodel = ''X5'', s_Genmodel_ID = ''8_2''\<rparr>]"

definition example_price_rows :: "price_record list" where
  "example_price_rows =
     [\<lparr>pr_makerName = ''Bmw'', pr_modelName = ''3 Series'', pr_genmodelId = ''8_1'',
       pr_year = Some 2014, pr_entryPrice = Some 17000, pr_entryPriceEur = Some 20000\<rparr>]"

section \<open>Properties of the price delta\<close>

subsection \<open>The closest year\<close>

lemma closest_year_Some: "refs \<noteq> [] \<Longrightarrow> \<exists>p. closest_year ly refs = Some p"
  by (induction refs) (auto split: option.splits)

lemma closest_year_None_iff: "closest_year ly refs = None \<longleftrightarrow> refs = []"
  by (induction refs) (auto split: option.splits)

lemma closest_year_mem: "closest_year ly refs = Some p \<Longrightarrow> p \<in> set refs"
  by (induction refs arbitrary: p) (auto split: option.splits if_splits)

lemma closest_year_least:
  "closest_year ly refs = Some p \<Longrightarrow> \<forall>q \<in> set refs. year_distance ly p \<le> year_distance ly q"
proof (induction refs arbitrary: p)
  case Nil
  then show ?case by simp
next
  case (Cons r rs)
  show ?case
  proof (cases "closest_year ly rs")
    case None
    then have "rs = []" by (simp add: closest_year_None_iff)
    with Cons.prems None show ?thesis by simp
  next
    case (Some b)
    have ih: "\<forall>x \<in> set rs. year_distance ly b \<le> year_distance ly x"
      using Cons.IH [OF Some] .
    show ?thesis
    proof (cases "year_distance ly r \<le> year_distance ly b")
      case True
      with Some Cons.prems have "p = r" by simp
      with True ih show ?thesis by force
    next
      case False
      with Some Cons.prems have "p = b" by simp
      with False ih show ?thesis by force
    qed
  qed
qed

text \<open>Among the rows at the least distance the selected one is the first of the scan.\<close>

lemma closest_year_first:
  "closest_year ly refs = Some p \<Longrightarrow>
   \<exists>i < length refs. refs ! i = p \<and> (\<forall>k < i. year_distance ly p < year_distance ly (refs ! k))"
proof (induction refs arbitrary: p)
  case Nil
  then show ?case by simp
next
  case (Cons r rs)
  show ?case
  proof (cases "closest_year ly rs")
    case None
    with Cons.prems have "p = r" by simp
    then show ?thesis by auto
  next
    case (Some b)
    show ?thesis
    proof (cases "year_distance ly r \<le> year_distance ly b")
      case True
      with Some Cons.prems have "p = r" by simp
      then show ?thesis by auto
    next
      case False
      with Some Cons.prems have pb: "p = b" by simp
      from Cons.IH [OF Some] obtain i where i: "i < length rs" "rs ! i = b"
        "\<forall>k < i. year_distance ly b < year_distance ly (rs ! k)" by blast
      have "\<forall>k < Suc i. year_distance ly p < year_distance ly ((r # rs) ! k)"
      proof (intro allI impI)
        fix k assume "k < Suc i"
        then show "year_distance ly p < year_distance ly ((r # rs) ! k)"
          using i(3) False pb by (cases k) auto
      qed
      with i pb show ?thesis by (intro exI [of _ "Suc i"]) auto
    qed
  qed
qed

subsection \<open>Rounding to two decimal places\<close>

lemma floor_rat_numeral: "\<lfloor>numeral a / numeral b :: rat\<rfloor> = numeral a div numeral b"
  by (metis floor_divide_of_int_eq of_int_numeral)








subsection \<open>Absent results\<close>

lemma computeDelta_empty: "computeDelta lp ly [] = Inr None"
  by (simp add: computeDelta_def)

lemma computeDelta_zero_reference:
  "computeDelta (Some 18000) (Some 2015)
     [\<lparr>p_model_id = 1, p_year = 2014, p_entry_price = None, p_entry_price_eur = Some 0\<rparr>]
   = Inl Division_by_zero"
  by (simp add: computeDelta_def discount_percent_def)

lemma computeDelta_SomeD:
  assumes "computeDelta lp ly refs = Inr (Some r)"
  shows "\<exists>p e l. closest_year ly refs = Some p \<and> p_entry_price_eur p = Some e \<and> e \<noteq> 0 \<and>
           lp = Some l \<and>
           r = \<lparr>referencePrice = e, referenceYear = p_year p, delta = e - l,
                deltaPercent = round2 ((e - l) / e * 100)\<rparr>"
  using assms
  by (auto simp: computeDelta_def discount_percent_def price_delta_def
      split: option.splits if_splits)

text \<open>
  Claim C1, as amended. \<open>computeDelta\<close> returns the absent result, and does not fail,
  whenever the list of reference prices is empty, or the listing price is null, or the
  selected reference price is null. The statement has no test of the sign of the listing
  price: whenever the selected reference price is neither null nor zero and the listing
  price is not null, positive or not, a result is present.
\<close>

theorem computeDelta_absent:
  "((referencePrices = [] \<or> listingPrice = None \<or>
     (\<exists>p. closest_year listingYear referencePrices = Some p \<and> p_entry_price_eur p = None))
    \<longrightarrow> computeDelta listingPrice listingYear referencePrices = Inr None) \<and>
   ((\<exists>p e. closest_year listingYear referencePrices = Some p \<and> p_entry_price_eur p = Some e \<and>
           e \<noteq> 0 \<and> listingPrice = Some l)
    \<longrightarrow> (\<exists>r. computeDelta listingPrice listingYear referencePrices = Inr (Some r)))"
  by (auto simp: computeDelta_def discount_percent_def split: option.splits)

theorem computeDelta_absent_witness:
  "computeDelta (Some 18000) (Some 2015) [] = Inr None \<and>
   (\<exists>r. computeDelta (Some (- 5)) (Some 2015)
          [\<lparr>p_model_id = 1, p_year = 2014, p_entry_price = None,
            p_entry_price_eur = Some 20000\<rparr>] = Inr (Some r))"
  using computeDelta_absent [of "[]" "Some 18000" "Some 2015" 0]
    computeDelta_absent [of "[\<lparr>p_model_id = 1, p_year = 2014, p_entry_price = None,
            p_entry_price_eur = Some 20000\<rparr>]" "Some (- 5)" "Some 2015" "- 5"]
  by simp

text \<open>
  Claim C1 as stated fails for a listing price that is not positive: with the listing
  price 0 and one reference point (2014, 20000) the result is present.
\<close>

theorem computeDelta_nonpositive_counterexample:
  "computeDelta (Some 0) (Some 2015)
     [\<lparr>p_model_id = 1, p_year = 2014, p_entry_price = None, p_entry_price_eur = Some 20000\<rparr>]
   = Inr (Some \<lparr>referencePrice = 20000, referenceYear = 2014, delta = 20000, deltaPercent = 100\<rparr>)"
  by (simp add: computeDelta_def discount_percent_def price_delta_def round2_def
      floor_rat_numeral)

subsection \<open>The selected reference point\<close>

text \<open>
  Claim C2, as amended. The reference point of a result is a row of the list at the least
  absolute distance between its year and the listing's year, a missing listing year
  counting as 0; among the rows at that distance it is the first one in the order of the
  list, every earlier row being strictly farther. When the listing year is missing and
  no year is negative, it is the row with the smallest year. For the listing (18000,
  2015) and the rows 2014 and 2016 in this order the 2014 row is selected, the delta is
  2000 and the percentage 10.
\<close>

theorem closest_reference_point:
  "(computeDelta listingPrice listingYear referencePrices = Inr (Some r) \<longrightarrow>
      (\<exists>i < length referencePrices.
          p_year (referencePrices ! i) = referenceYear r \<and>
          p_entry_price_eur (referencePrices ! i) = Some (referencePrice r) \<and>
          (\<forall>q \<in> set referencePrices.
              \<bar>referenceYear r - (case listingYear of None \<Rightarrow> 0 | Some y \<Rightarrow> y)\<bar>
                \<le> \<bar>p_year q - (case listingYear of None \<Rightarrow> 0 | Some y \<Rightarrow> y)\<bar>) \<and>
          (\<forall>k < i.
              \<bar>referenceYear r - (case listingYear of None \<Rightarrow> 0 | Some y \<Rightarrow> y)\<bar>
                < \<bar>p_year (referencePrices ! k) - (case listingYear of None \<Rightarrow> 0 | Some y \<Rightarrow> y)\<bar>))) \<and>
   (computeDelta listingPrice None referencePrices = Inr (Some r) \<and>
    (\<forall>q \<in> set referencePrices. 0 \<le> p_year q) \<longrightarrow>
      (\<forall>q \<in> set referencePrices. referenceYear r \<le> p_year q)) \<and>
   computeDelta (Some 18000) (Some 2015)
     [\<lparr>p_model_id = 1, p_year = 2014, p_entry_price = None, p_entry_price_eur = Some 20000\<rparr>,
      \<lparr>p_model_id = 1, p_year = 2016, p_entry_price = None, p_entry_price_eur = Some 22000\<rparr>]
   = Inr (Some \<lparr>referencePrice = 20000, referenceYear = 2014, delta = 2000, deltaPercent = 10\<rparr>)"
proof (intro conjI impI)
  assume a: "computeDelta listingPrice listingYear referencePrices = Inr (Some r)"
  from computeDelta_SomeD [OF a] obtain p e l where
    p: "closest_year listingYear referencePrices = Some p" "p_entry_price_eur p = Some e"
    and r: "r = \<lparr>referencePrice = e, referenceYear = p_year p, delta = e - l,
                deltaPercent = round2 ((e - l) / e * 100)\<rparr>" by blast
  from closest_year_first [OF p(1)] obtain i where
    i: "i < length referencePrices" "referencePrices ! i = p"
       "\<forall>k < i. year_distance listingYear p < year_distance listingYear (referencePrices ! k)"
    by blast
  from closest_year_least [OF p(1)] have
    least: "\<forall>q \<in> set referencePrices. year_distance listingYear p \<le> year_distance listingYear q" .
  show "\<exists>i < length referencePrices.
          p_year (referencePrices ! i) = referenceYear r \<and>
          p_entry_price_eur (referencePrices ! i) = Some (referencePrice r) \<and>
          (\<forall>q \<in> set referencePrices.
              \<bar>referenceYear r - (case listingYear of None \<Rightarrow> 0 | Some y \<Rightarrow> y)\<bar>
                \<le> \<bar>p_year q - (case listingYear of None \<Rightarrow> 0 | Some y \<Rightarrow> y)\<bar>) \<and>
          (\<forall>k < i.
              \<bar>referenceYear r - (case listingYear of None \<Rightarrow> 0 | Some y \<Rightarrow> y)\<bar>
                < \<bar>p_year (referencePrices ! k) - (case listingYear of None \<Rightarrow> 0 | Some y \<Rightarrow> y)\<bar>)"
    using i least p(2) r unfolding year_distance_def by (intro exI [of _ i]) simp
next
  assume a: "computeDelta listingPrice None referencePrices = Inr (Some r) \<and>
    (\<forall>q \<in> set referencePrices. 0 \<le> p_year q)"
  from computeDelta_SomeD [of listingPrice None referencePrices r] a obtain p e l where
    p: "closest_year None referencePrices = Some p"
    and r: "r = \<lparr>referencePrice = e, referenceYear = p_year p, delta = e - l,
                deltaPercent = round2 ((e - l) / e * 100)\<rparr>" by blast
  have "\<forall>q \<in> set referencePrices. \<bar>p_year p\<bar> \<le> \<bar>p_year q\<bar>"
    using closest_year_least [OF p] unfolding year_distance_def by simp
  moreover have "0 \<le> p_year p" using closest_year_mem [OF p] a by blast
  ultimately show "\<forall>q \<in> set referencePrices. referenceYear r \<le> p_year q"
    using a r by fastforce
next
  show "computeDelta (Some 18000) (Some 2015)
     [\<lparr>p_model_id = 1, p_year = 2014, p_entry_price = None, p_entry_price_eur = Some 20000\<rparr>,
      \<lparr>p_model_id = 1, p_year = 2016, p_entry_price = None, p_entry_price_eur = Some 22000\<rparr>]
   = Inr (Some \<lparr>referencePrice = 20000, referenceYear = 2014, delta = 2000, deltaPercent = 10\<rparr>)"
    by (simp add: computeDelta_def discount_percent_def price_delta_def round2_def
        year_distance_def floor_rat_numeral)
qed

theorem closest_reference_point_witness:
  "computeDelta (Some 18000) (Some 2015)
     [\<lparr>p_model_id = 1, p_year = 2013, p_entry_price = None, p_entry_price_eur = Some 20000\<rparr>,
      \<lparr>p_model_id = 1, p_year = 2016, p_entry_price = None, p_entry_price_eur = Some 22000\<rparr>]
   = Inr (Some \<lparr>referencePrice = 22000, referenceYear = 2016, delta = 4000,
               deltaPercent = 909 / 50\<rparr>) \<and>
   (\<exists>i < length [\<lparr>p_model_id = 1, p_year = 2013, p_entry_price = None,
                p_entry_price_eur = Some (20000 :: rat)\<rparr>,
               \<lparr>p_model_id = 1, p_year = 2016, p_entry_price = None,
                p_entry_price_eur = Some 22000\<rparr>].
      p_year ([\<lparr>p_model_id = 1, p_year = 2013, p_entry_price = None,
                p_entry_price_eur = Some (20000 :: rat)\<rparr>,
               \<lparr>p_model_id = 1, p_year = 2016, p_entry_price = None,
                p_entry_price_eur = Some 22000\<rparr>] ! i) = 2016 \<and>
      (\<forall>k < i. \<bar>2016 - 2015\<bar>
          < \<bar>p_year ([\<lparr>p_model_id = 1, p_year = 2013, p_entry_price = None,
                         p_entry_price_eur = Some (20000 :: rat)\<rparr>,
                        \<lparr>p_model_id = 1, p_year = 2016, p_entry_price = None,
                         p_entry_price_eur = Some 22000\<rparr>] ! k) - 2015\<bar>))"
proof -
  have h: "computeDelta (Some 18000) (Some 2015)
     [\<lparr>p_model_id = 1, p_year = 2013, p_entry_price = None, p_entry_price_eur = Some 20000\<rparr>,
      \<lparr>p_model_id = 1, p_year = 2016, p_entry_price = None, p_entry_price_eur = Some 22000\<rparr>]
   = Inr (Some \<lparr>referencePrice = 22000, referenceYear = 2016, delta = 4000,
               deltaPercent = 909 / 50\<rparr>)"
    by (simp add: computeDelta_def discount_percent_def price_delta_def round2_def
        year_distance_def floor_rat_numeral)
  have "\<exists>i < length [\<lparr>p_model_id = 1, p_year = 2013, p_entry_price = None,
                p_entry_price_eur = Some (20000 :: rat)\<rparr>,
               \<lparr>p_model_id = 1, p_year = 2016, p_entry_price = None,
                p_entry_price_eur = Some 22000\<rparr>].
      p_year ([\<lparr>p_model_id = 1, p_year = 2013, p_entry_price = None,
                p_entry_price_eur = Some (20000 :: rat)\<rparr>,
               \<lparr>p_model_id = 1, p_year = 2016, p_entry_price = None,
                p_entry_price_eur = Some 22000\<rparr>] ! i) = 2016 \<and>
      (\<forall>k < i. \<bar>2016 - 2015\<bar>
          < \<bar>p_year ([\<lparr>p_model_id = 1, p_year = 2013, p_entry_price = None,
                         p_entry_price_eur = Some (20000 :: rat)\<rparr>,
                        \<lparr>p_model_id = 1, p_year = 2016, p_entry_price = None,
                         p_entry_price_eur = Some 22000\<rparr>] ! k) - 2015\<bar>)"
    using closest_reference_point [THEN conjunct1, THEN mp, OF h]
    by (elim exE conjE, intro exI conjI) (simp_all del: abs_numeral)
  with h show ?thesis by simp
qed

text \<open>
  Claim C2 as stated fails on a tie: the statement orders the rows by the distance alone,
  so with the rows 2016 and 2014 in this order the 2016 row is selected for the listing
  year 2015, not the earlier year.
\<close>

theorem closest_reference_point_counterexample:
  "computeDelta (Some 18000) (Some 2015)
     [\<lparr>p_model_id = 1, p_year = 2016, p_entry_price = None, p_entry_price_eur = Some 22000\<rparr>,
      \<lparr>p_model_id = 1, p_year = 2014, p_entry_price = None, p_entry_price_eur = Some 20000\<rparr>]
   = Inr (Some \<lparr>referencePrice = 22000, referenceYear = 2016, delta = 4000,
               deltaPercent = 909 / 50\<rparr>)"
  by (simp add: computeDelta_def discount_percent_def price_delta_def round2_def
      year_distance_def floor_rat_numeral)

subsection \<open>The delta and its sign\<close>



section \<open>Properties of the sort key\<close>

lemma sortOrder_prefix:
  "sortOrder sortBy = (if \<exists>rest. sortBy = CHR ''-'' # rest then DESC else ASC)"
  by (cases sortBy) (auto simp: sortOrder_def)

lemma sortColumn_prefix:
  "sortColumn (CHR ''-'' # rest) = rest"
  by (simp add: sortColumn_def)

text \<open>Insertion keeps a sorted list sorted when the order is total and transitive.\<close>

lemma set_insert_row: "set (insert_row le x xs) = insert x (set xs)"
  by (induction xs) auto


lemma sorted_wrt_insert_row:
  assumes total: "\<And>a b. le a b \<or> le b a"
    and trans: "\<And>a b c. le a b \<Longrightarrow> le b c \<Longrightarrow> le a c"
  shows "sorted_wrt le xs \<Longrightarrow> sorted_wrt le (insert_row le x xs)"
proof (induction xs)
  case Nil
  then show ?case by simp
next
  case (Cons y ys)
  show ?case
  proof (cases "le x y")
    case True
    then have "\<forall>z \<in> set ys. le x z" using Cons.prems trans by auto
    with True Cons.prems show ?thesis by simp
  next
    case False
    then have "le y x" using total by blast
    with False Cons show ?thesis by (auto simp: set_insert_row)
  qed
qed

lemma sorted_wrt_sort_rows:
  assumes total: "\<And>a b. le a b \<or> le b a"
    and trans: "\<And>a b c. le a b \<Longrightarrow> le b c \<Longrightarrow> le a c"
  shows "sorted_wrt le (sort_rows le xs)"
  unfolding sort_rows_def
  by (induction xs) (auto intro: sorted_wrt_insert_row [OF total trans])

lemma value_le_total: "value_le a b \<or> value_le b a"
  by (cases a; cases b) auto

lemma value_le_trans: "value_le a b \<Longrightarrow> value_le b c \<Longrightarrow> value_le a c"
  by (cases a; cases b; cases c) auto

lemma sorts_before_total: "sorts_before ord a b \<or> sorts_before ord b a"
  using value_le_total [of a b] by (cases ord) (auto simp: sorts_before_def)

lemma sorts_before_trans:
  "sorts_before ord a b \<Longrightarrow> sorts_before ord b c \<Longrightarrow> sorts_before ord a c"
  using value_le_trans [of a b c] value_le_trans [of c b a]
  by (cases ord) (auto simp: sorts_before_def split: if_splits)

lemma sorted_order_rows:
  "sorted_wrt (\<lambda>x y. sorts_before ord (column_value c x) (column_value c y)) (order_rows c ord rows)"
  unfolding order_rows_def
  by (rule sorted_wrt_sort_rows) (auto intro: sorts_before_trans simp: sorts_before_total)

lemma sorted_wrt_take_drop: "sorted_wrt P xs \<Longrightarrow> sorted_wrt P (take n (drop m xs))"
  by (simp add: sorted_wrt_drop sorted_wrt_take)

lemma page_query_sorted:
  assumes "page_query q d = Inr rows" "orderBy (q_sortBy q) = Column c"
  shows "sorted_wrt (\<lambda>x y. sorts_before (sortOrder (q_sortBy q)) (column_value c x) (column_value c y)) rows"
  using assms sorted_order_rows
  by (auto simp: page_query_def split: if_splits sum.splits intro!: sorted_wrt_take_drop)


lemma page_query_inherited_name:
  "page_query (default_query\<lparr>q_sortBy := ''constructor''\<rparr>) d = Inl Syntax_error"
  by (simp add: page_query_def default_query_def orderBy_def sortColumn_def
      validSortColumns_def inherited_properties_def)

text \<open>
  Claim C7, as amended. A sort key that starts with \<open>-\<close> selects the descending order
  and any other key the ascending order. A key whose name, after the prefix is removed,
  is neither a key of \<open>validSortColumns\<close> nor the name of a property that the object
  inherits is ordered by \<open>price_delta_percent\<close>, in the direction that the prefix
  selects. The rows of a page stand in the selected order of the selected column, nulls
  last.
\<close>

theorem sort_key_handling:
  "(sortOrder sortBy = DESC \<longleftrightarrow> (\<exists>rest. sortBy = CHR ''-'' # rest)) \<and>
   (sortOrder sortBy = ASC \<longleftrightarrow> (\<nexists>rest. sortBy = CHR ''-'' # rest)) \<and>
   (map_of validSortColumns (sortColumn sortBy) = None \<and>
    sortColumn sortBy \<notin> set inherited_properties
      \<longrightarrow> orderBy sortBy = Column ''price_delta_percent'') \<and>
   (page_query q d = Inr rows \<and> orderBy (q_sortBy q) = Column c
      \<longrightarrow> sorted_wrt (\<lambda>x y. sorts_before (sortOrder (q_sortBy q))
                                  (column_value c x) (column_value c y)) rows)"
proof (intro conjI impI)
  show "sortOrder sortBy = DESC \<longleftrightarrow> (\<exists>rest. sortBy = CHR ''-'' # rest)"
    by (simp add: sortOrder_prefix)
  show "sortOrder sortBy = ASC \<longleftrightarrow> (\<nexists>rest. sortBy = CHR ''-'' # rest)"
    by (simp add: sortOrder_prefix)
next
  assume "map_of validSortColumns (sortColumn sortBy) = None \<and>
    sortColumn sortBy \<notin> set inherited_properties"
  then show "orderBy sortBy = Column ''price_delta_percent''"
    by (simp add: orderBy_def)
next
  assume "page_query q d = Inr rows \<and> orderBy (q_sortBy q) = Column c"
  then show "sorted_wrt (\<lambda>x y. sorts_before (sortOrder (q_sortBy q))
                                  (column_value c x) (column_value c y)) rows"
    using page_query_sorted by blast
qed

theorem sort_key_handling_witness:
  "map_of validSortColumns (sortColumn ''-mystery'') = None \<and>
   sortColumn ''-mystery'' \<notin> set inherited_properties \<and>
   orderBy ''-mystery'' = Column ''price_delta_percent'' \<and>
   sortOrder ''-mystery'' = DESC"
proof -
  have h: "map_of validSortColumns (sortColumn ''-mystery'') = None \<and>
    sortColumn ''-mystery'' \<notin> set inherited_properties"
    by (simp add: sortColumn_def validSortColumns_def inherited_properties_def)
  have "orderBy ''-mystery'' = Column ''price_delta_percent''"
    using sort_key_handling [of "''-mystery''", THEN conjunct2, THEN conjunct2, THEN conjunct1,
        THEN mp, OF h] .
  moreover have "sortOrder ''-mystery'' = DESC"
    using sort_key_handling [of "''-mystery''", THEN conjunct1] by simp
  ultimately show ?thesis using h by simp
qed

text \<open>
  Claim C7 as stated fails for an unrecognised key without prefix: the rows are ordered
  by \<open>price_delta_percent\<close> ascending, not descending.
\<close>

theorem sort_key_default_counterexample:
  "orderBy ''mystery'' = Column ''price_delta_percent'' \<and> sortOrder ''mystery'' = ASC"
  by (simp add: orderBy_def sortOrder_def sortColumn_def validSortColumns_def
      inherited_properties_def)

section \<open>Properties of listing ingestion\<close>

lemma upsert_listing_conflict:
  assumes "l_url new = Some u" "list_ex (\<lambda>r. l_url r = Some u) (listings d)"
  shows "listings (upsert_listing new d) =
           map (\<lambda>x. if l_url x = Some u
                     then x\<lparr>l_title := l_title new, l_price_eur := l_price_eur new,
                            l_mileage_km := l_mileage_km new, l_year := l_year new,
                            l_model_id := l_model_id new\<rparr>
                     else x) (listings d)"
  using assms by (simp add: upsert_listing_def)

text \<open>
  Claim C10. When a row of the listings file carries a url that a stored listing already
  has, the upsert adds no row, keeps the listing's id and url, sets its title, price,
  mileage, year and model id from the new row, and leaves its currency, location,
  description, images, specs, extracted make and extracted model as they were; the
  extracted make and model are not recomputed from the new title. Listings with another
  url are unchanged.
\<close>

theorem reingestion_frame:
  assumes "i < length (listings d)"
    and "l_url (listings d ! i) = Some (c_url r)"
    and "c_url r \<noteq> []"
  shows "length (listings (seedListings_row r d)) = length (listings d) \<and>
         l_id (listings (seedListings_row r d) ! i) = l_id (listings d ! i) \<and>
         l_url (listings (seedListings_row r d) ! i) = l_url (listings d ! i) \<and>
         l_title (listings (seedListings_row r d) ! i) = or_null (c_title r) \<and>
         l_price_eur (listings (seedListings_row r d) ! i) = c_price_eur r \<and>
         l_mileage_km (listings (seedListings_row r d) ! i) = c_mileage_km r \<and>
         l_year (listings (seedListings_row r d) ! i) = c_year r \<and>
         l_model_id (listings (seedListings_row r d) ! i)
           = match_model d (extractMakeModel (Some (c_title r))) \<and>
         l_currency (listings (seedListings_row r d) ! i) = l_currency (listings d ! i) \<and>
         l_location (listings (seedListings_row r d) ! i) = l_location (listings d ! i) \<and>
         l_description (listings (seedListings_row r d) ! i) = l_description (listings d ! i) \<and>
         l_images (listings (seedListings_row r d) ! i) = l_images (listings d ! i) \<and>
         l_specs (listings (seedListings_row r d) ! i) = l_specs (listings d ! i) \<and>
         l_extracted_make (listings (seedListings_row r d) ! i)
           = l_extracted_make (listings d ! i) \<and>
         l_extracted_model (listings (seedListings_row r d) ! i)
           = l_extracted_model (listings d ! i) \<and>
         (\<forall>j < length (listings d). l_url (listings d ! j) \<noteq> Some (c_url r)
            \<longrightarrow> listings (seedListings_row r d) ! j = listings d ! j)"
proof -
  define new :: listing where "new =
           \<lparr>l_id = listings_seq d,
            l_url = or_null (c_url r),
            l_title = or_null (c_title r),
            l_price_eur = c_price_eur r,
            l_currency = or_null (c_currency r),
            l_mileage_km = c_mileage_km r,
            l_year = c_year r,
            l_location = or_null (c_location r),
            l_description = or_null (c_description r),
            l_images = or_null (c_images r),
            l_specs = c_specs r,
            l_model_id = match_model d (extractMakeModel (Some (c_title r))),
            l_extracted_make = ex_make (extractMakeModel (Some (c_title r))),
            l_extracted_model = ex_model (extractMakeModel (Some (c_title r)))\<rparr>"
  have step: "seedListings_row r d = upsert_listing new d"
    by (simp add: seedListings_row_def new_def Let_def)
  have url: "l_url new = Some (c_url r)"
    using assms(3) by (simp add: new_def or_null_def)
  have "listings d ! i \<in> set (listings d)" using assms(1) by simp
  then have ex: "list_ex (\<lambda>x. l_url x = Some (c_url r)) (listings d)"
    using assms(2) by (auto simp: list_ex_iff)
  have rows: "listings (seedListings_row r d) =
           map (\<lambda>x. if l_url x = Some (c_url r)
                     then x\<lparr>l_title := l_title new, l_price_eur := l_price_eur new,
                            l_mileage_km := l_mileage_km new, l_year := l_year new,
                            l_model_id := l_model_id new\<rparr>
                     else x) (listings d)"
    unfolding step by (rule upsert_listing_conflict [OF url ex])
  have at_i: "listings (seedListings_row r d) ! i =
      (listings d ! i)\<lparr>l_title := l_title new, l_price_eur := l_price_eur new,
                            l_mileage_km := l_mileage_km new, l_year := l_year new,
                            l_model_id := l_model_id new\<rparr>"
    unfolding rows using assms(1,2) by simp
  have others: "\<forall>j < length (listings d). l_url (listings d ! j) \<noteq> Some (c_url r)
            \<longrightarrow> listings (seedListings_row r d) ! j = listings d ! j"
    unfolding rows by simp
  have len: "length (listings (seedListings_row r d)) = length (listings d)"
    unfolding rows by simp
  show ?thesis
    unfolding at_i using len others by (simp add: new_def)
qed

theorem reingestion_frame_witness:
  "0 < length (listings example_db) \<and>
   l_url (listings example_db ! 0) = Some (c_url example_record) \<and>
   c_url example_record \<noteq> [] \<and>
   l_title (listings (seedListings_row example_record example_db) ! 0) = Some ''BMW X5 3.0 d'' \<and>
   l_price_eur (listings (seedListings_row example_record example_db) ! 0) = Some 17500 \<and>
   l_currency (listings (seedListings_row example_record example_db) ! 0) = Some ''EUR'' \<and>
   l_extracted_make (listings (seedListings_row example_record example_db) ! 0) = Some ''Skoda'' \<and>
   l_extracted_model (listings (seedListings_row example_record example_db) ! 0)
     = Some ''Octavia Combi'' \<and>
   extractMakeModel (Some (c_title example_record))
     = \<lparr>ex_make = Some ''BMW'', ex_model = Some ''X5''\<rparr>"
proof -
  have h1: "0 < length (listings example_db)"
    by (simp add: example_db_def)
  have h2: "l_url (listings example_db ! 0) = Some (c_url example_record)"
    by (simp add: example_db_def example_listing_def example_record_def)
  have h3: "c_url example_record \<noteq> []"
    by (simp add: example_record_def)
  have old: "listings example_db ! 0 = example_listing"
    by (simp add: example_db_def)
  have ex: "extractMakeModel (Some (c_title example_record))
     = \<lparr>ex_make = Some ''BMW'', ex_model = Some ''X5''\<rparr>"
    unfolding example_record_def by code_simp
  from reingestion_frame [OF h1 h2 h3] h1 h2 h3 ex show ?thesis
    unfolding old by (simp add: example_listing_def example_record_def or_null_def)
qed

section \<open>Properties of catalog ingestion\<close>

subsection \<open>Looking a natural key up\<close>

lemma filter_Nil_find: "filter P xs = [] \<longleftrightarrow> find P xs = None"
  by (induction xs) auto

lemma filter_Cons_find: "filter P xs = x # ys \<Longrightarrow> find P xs = Some x"
  by (induction xs) (auto split: if_splits)

lemma find_append: "find P (xs @ ys) = (case find P xs of None \<Rightarrow> find P ys | Some x \<Rightarrow> Some x)"
  by (induction xs) auto

lemma find_map: "find P (map f xs) = map_option f (find (\<lambda>x. P (f x)) xs)"
  by (induction xs) auto

lemma map_same_name: "map (\<lambda>x. if mk_name x = name then x\<lparr>mk_name := name\<rparr> else x) mks = mks"
  by (induction mks) auto

lemma upsert_maker_cases:
  "upsert_maker name d =
     (case maker_lookup (makers d) name of
        Some i \<Rightarrow> (i, d\<lparr>makers_seq := makers_seq d + 1\<rparr>)
      | None \<Rightarrow> (makers_seq d,
                 d\<lparr>makers := makers d @ [\<lparr>mk_id = makers_seq d, mk_name = name\<rparr>],
                   makers_seq := makers_seq d + 1\<rparr>))"
proof (cases "filter (\<lambda>r. mk_name r = name) (makers d)")
  case Nil
  then have "find (\<lambda>r. mk_name r = name) (makers d) = None" by (simp add: filter_Nil_find)
  with Nil show ?thesis by (simp add: upsert_maker_def maker_lookup_def)
next
  case (Cons r rs)
  then have "find (\<lambda>r. mk_name r = name) (makers d) = Some r" by (rule filter_Cons_find)
  with Cons show ?thesis by (simp add: upsert_maker_def maker_lookup_def map_same_name)
qed

lemma map_model_key_rename:
  "map model_key (map (\<lambda>x. if P x then x\<lparr>m_name := name\<rparr> else x) ms) = map model_key ms"
  by (induction ms) (auto simp: model_key_def)

lemma model_lookup_keys:
  "model_lookup (map model_key ms) makerId g =
     map_option m_id (find (\<lambda>r. m_maker_id r = makerId \<and> m_genmodel_id r = g) ms)"
  by (induction ms) (auto simp: model_lookup_def model_key_def)

lemma upsert_model_cases:
  "case model_lookup (map model_key (models d)) makerId g of
     Some i \<Rightarrow> fst (upsert_model makerId name g d) = i \<and>
               map model_key (models (snd (upsert_model makerId name g d))) = map model_key (models d)
   | None \<Rightarrow> fst (upsert_model makerId name g d) = models_seq d \<and>
             map model_key (models (snd (upsert_model makerId name g d)))
               = map model_key (models d) @ [(models_seq d, makerId, g)]"
proof (cases "filter (\<lambda>r. m_maker_id r = makerId \<and> m_genmodel_id r = g) (models d)")
  case Nil
  then have "find (\<lambda>r. m_maker_id r = makerId \<and> m_genmodel_id r = g) (models d) = None"
    by (simp add: filter_Nil_find)
  with Nil show ?thesis by (simp add: upsert_model_def model_lookup_keys model_key_def)
next
  case (Cons r rs)
  then have "find (\<lambda>r. m_maker_id r = makerId \<and> m_genmodel_id r = g) (models d) = Some r"
    by (rule filter_Cons_find)
  with Cons show ?thesis
    by (simp add: upsert_model_def model_lookup_keys model_key_def)
qed

lemma upsert_model_makers: "makers (snd (upsert_model makerId name g d)) = makers d"
  by (simp add: upsert_model_def split: list.splits)

lemma upsert_maker_models: "models (snd (upsert_maker name d)) = models d"
  by (simp add: upsert_maker_def split: list.splits)

lemma upsert_price_makers: "makers (upsert_price p d) = makers d"
  by (simp add: upsert_price_def)

lemma upsert_price_models: "models (upsert_price p d) = models d"
  by (simp add: upsert_price_def)

subsection \<open>One call of \<open>getMakerId\<close> and of \<open>getModelId\<close>\<close>

lemma maker_lookup_append:
  "maker_lookup mks name = Some i \<Longrightarrow> maker_lookup (mks @ ys) name = Some i"
  by (auto simp: maker_lookup_def find_append split: option.splits)

lemma model_lookup_append:
  "model_lookup ks makerId g = Some i \<Longrightarrow> model_lookup (ks @ ys) makerId g = Some i"
  by (auto simp: model_lookup_def find_append split: option.splits)

lemma upsert_maker_lookup:
  "maker_lookup (makers (snd (upsert_maker name d))) name = Some (fst (upsert_maker name d))"
  by (auto simp: upsert_maker_cases maker_lookup_def find_append split: option.splits)

lemma upsert_maker_persist:
  "maker_lookup (makers d) n = Some i \<Longrightarrow> maker_lookup (makers (snd (upsert_maker name d))) n = Some i"
  by (auto simp: upsert_maker_cases maker_lookup_append split: option.splits)

lemma upsert_maker_present:
  "maker_lookup (makers d) name = Some i \<Longrightarrow>
     fst (upsert_maker name d) = i \<and> makers (snd (upsert_maker name d)) = makers d"
  by (simp add: upsert_maker_cases)

lemma upsert_model_lookup:
  "model_lookup (map model_key (models (snd (upsert_model makerId name g d)))) makerId g
     = Some (fst (upsert_model makerId name g d))"
  using upsert_model_cases [where d = d and makerId = makerId and g = g and name = name]
  by (auto simp: model_lookup_def find_append split: option.splits)

lemma upsert_model_persist:
  "model_lookup (map model_key (models d)) mi g' = Some i \<Longrightarrow>
     model_lookup (map model_key (models (snd (upsert_model makerId name g d)))) mi g' = Some i"
  using upsert_model_cases [where d = d and makerId = makerId and g = g and name = name]
  by (auto simp: model_lookup_append split: option.splits)

lemma upsert_model_present:
  "model_lookup (map model_key (models d)) makerId g = Some i \<Longrightarrow>
     fst (upsert_model makerId name g d) = i \<and>
     map model_key (models (snd (upsert_model makerId name g d))) = map model_key (models d)"
  using upsert_model_cases [where d = d and makerId = makerId and g = g and name = name] by simp

subsection \<open>Replaying a run on its own result\<close>

lemma covers_refl: "covers a a"
  by (simp add: covers_def)

lemma covers_trans: "covers a b \<Longrightarrow> covers b c \<Longrightarrow> covers a c"
  by (simp add: covers_def)

lemma covers_keys: "catalog_keys b' = catalog_keys b \<Longrightarrow> covers a b \<Longrightarrow> covers a b'"
  by (simp add: covers_def)

lemma getMakerId_hit:
  "makerCache st (toUpperCase (trim n)) = Some i \<Longrightarrow> getMakerId n st = (i, st)"
  by (simp add: getMakerId_def)

lemma getMakerId_miss:
  "makerCache st (toUpperCase (trim n)) = None \<Longrightarrow>
     getMakerId n st =
       (fst (upsert_maker (trim n) (ing_db st)),
        st\<lparr>ing_db := snd (upsert_maker (trim n) (ing_db st)),
           makerCache := (makerCache st)(toUpperCase (trim n) \<mapsto>
                            fst (upsert_maker (trim n) (ing_db st)))\<rparr>)"
  by (simp add: getMakerId_def split: prod.splits)

lemma getModelId_hit:
  "modelCache st (i, g) = Some j \<Longrightarrow> getModelId i m g st = (j, st)"
  by (simp add: getModelId_def)

lemma getModelId_miss:
  "modelCache st (i, g) = None \<Longrightarrow>
     getModelId i m g st =
       (fst (upsert_model i (trim m) (trim g) (ing_db st)),
        st\<lparr>ing_db := snd (upsert_model i (trim m) (trim g) (ing_db st)),
           modelCache := (modelCache st)((i, g) \<mapsto>
                            fst (upsert_model i (trim m) (trim g) (ing_db st)))\<rparr>)"
  by (simp add: getModelId_def split: prod.splits)

lemma getMakerId_persist: "covers st (snd (getMakerId n st))"
proof (cases "makerCache st (toUpperCase (trim n))")
  case None
  show ?thesis
    unfolding getMakerId_miss [OF None]
    by (simp add: covers_def catalog_keys_def upsert_maker_persist upsert_maker_models)
next
  case (Some i)
  show ?thesis unfolding getMakerId_hit [OF Some] by (simp add: covers_refl)
qed

lemma getModelId_persist: "covers st (snd (getModelId i m g st))"
proof (cases "modelCache st (i, g)")
  case None
  show ?thesis
    unfolding getModelId_miss [OF None]
    by (simp add: covers_def catalog_keys_def upsert_model_persist upsert_model_makers)
next
  case (Some j)
  show ?thesis unfolding getModelId_hit [OF Some] by (simp add: covers_refl)
qed

lemma getMakerId_replay:
  assumes same: "same_caches a b" and cov: "covers (snd (getMakerId n a)) b"
  shows "fst (getMakerId n b) = fst (getMakerId n a) \<and>
         catalog_keys (snd (getMakerId n b)) = catalog_keys b \<and>
         same_caches (snd (getMakerId n a)) (snd (getMakerId n b))"
proof (cases "makerCache a (toUpperCase (trim n))")
  case (Some i)
  moreover from Some same have "makerCache b (toUpperCase (trim n)) = Some i"
    by (simp add: same_caches_def)
  ultimately show ?thesis using same by (simp add: getMakerId_hit)
next
  case None
  from None same have noneb: "makerCache b (toUpperCase (trim n)) = None"
    by (simp add: same_caches_def)
  define i where "i = fst (upsert_maker (trim n) (ing_db a))"
  have "maker_lookup (fst (catalog_keys (snd (getMakerId n a)))) (trim n) = Some i"
    unfolding getMakerId_miss [OF None] i_def
    by (simp add: catalog_keys_def upsert_maker_lookup)
  with cov have "maker_lookup (makers (ing_db b)) (trim n) = Some i"
    by (simp add: covers_def catalog_keys_def)
  from upsert_maker_present [OF this] have
    b: "fst (upsert_maker (trim n) (ing_db b)) = i"
       "makers (snd (upsert_maker (trim n) (ing_db b))) = makers (ing_db b)" by simp_all
  show ?thesis
    unfolding getMakerId_miss [OF None] getMakerId_miss [OF noneb]
    using b same by (simp add: i_def catalog_keys_def same_caches_def upsert_maker_models)
qed

lemma getModelId_replay:
  assumes same: "same_caches a b" and cov: "covers (snd (getModelId i m g a)) b"
  shows "fst (getModelId i m g b) = fst (getModelId i m g a) \<and>
         catalog_keys (snd (getModelId i m g b)) = catalog_keys b \<and>
         same_caches (snd (getModelId i m g a)) (snd (getModelId i m g b))"
proof (cases "modelCache a (i, g)")
  case (Some j)
  moreover from Some same have "modelCache b (i, g) = Some j"
    by (simp add: same_caches_def)
  ultimately show ?thesis using same by (simp add: getModelId_hit)
next
  case None
  from None same have noneb: "modelCache b (i, g) = None"
    by (simp add: same_caches_def)
  define j where "j = fst (upsert_model i (trim m) (trim g) (ing_db a))"
  have "model_lookup (snd (catalog_keys (snd (getModelId i m g a)))) i (trim g) = Some j"
    unfolding getModelId_miss [OF None] j_def
    by (simp add: catalog_keys_def upsert_model_lookup)
  with cov have "model_lookup (map model_key (models (ing_db b))) i (trim g) = Some j"
    by (simp add: covers_def catalog_keys_def)
  from upsert_model_present [OF this] have
    b: "fst (upsert_model i (trim m) (trim g) (ing_db b)) = j"
       "map model_key (models (snd (upsert_model i (trim m) (trim g) (ing_db b))))
          = map model_key (models (ing_db b))" by simp_all
  show ?thesis
    unfolding getModelId_miss [OF None] getModelId_miss [OF noneb]
    using b same by (simp add: j_def catalog_keys_def same_caches_def upsert_model_makers)
qed

lemma catalog_step_persist: "covers st (catalog_step n m g st)"
  unfolding catalog_step_def
  by (rule covers_trans [OF getMakerId_persist getModelId_persist])

lemma catalog_step_replay:
  assumes same: "same_caches a b" and cov: "covers (catalog_step n m g a) b"
  shows "catalog_keys (catalog_step n m g b) = catalog_keys b \<and>
         same_caches (catalog_step n m g a) (catalog_step n m g b)"
proof -
  have "covers (snd (getMakerId n a)) (catalog_step n m g a)"
    unfolding catalog_step_def by (rule getModelId_persist)
  then have cov1: "covers (snd (getMakerId n a)) b" using cov by (rule covers_trans)
  from getMakerId_replay [OF same cov1] have
    ids: "fst (getMakerId n b) = fst (getMakerId n a)"
    and keys1: "catalog_keys (snd (getMakerId n b)) = catalog_keys b"
    and same1: "same_caches (snd (getMakerId n a)) (snd (getMakerId n b))" by simp_all
  have cov2: "covers (snd (getModelId (fst (getMakerId n a)) m g (snd (getMakerId n a))))
                (snd (getMakerId n b))"
    using covers_keys [OF keys1] cov unfolding catalog_step_def by simp
  from getModelId_replay [OF same1 cov2] keys1 ids show ?thesis
    unfolding catalog_step_def by simp
qed

lemma seedSales_row_step:
  "seedSales_row r st = catalog_step (s_Maker r) (s_Genmodel r) (s_Genmodel_ID r) st"
  by (simp add: seedSales_row_def catalog_step_def split: prod.splits)

lemma seedPrices_row_keys:
  "catalog_keys (seedPrices_row r st) =
     catalog_keys (if pr_makerName r = [] \<or> pr_modelName r = [] \<or> pr_genmodelId r = [] then st
                   else catalog_step (pr_makerName r) (pr_modelName r) (pr_genmodelId r) st)"
  by (simp add: seedPrices_row_def catalog_step_def catalog_keys_def upsert_price_makers
      upsert_price_models split: prod.splits option.splits)

lemma seedPrices_row_caches:
  "same_caches (seedPrices_row r st)
     (if pr_makerName r = [] \<or> pr_modelName r = [] \<or> pr_genmodelId r = [] then st
      else catalog_step (pr_makerName r) (pr_modelName r) (pr_genmodelId r) st)"
  by (simp add: seedPrices_row_def catalog_step_def same_caches_def
      split: prod.splits option.splits)

lemma covers_keys_left: "catalog_keys a' = catalog_keys a \<Longrightarrow> covers a b \<Longrightarrow> covers a' b"
  by (simp add: covers_def)

lemma same_caches_sym: "same_caches a b \<Longrightarrow> same_caches b a"
  by (simp add: same_caches_def)

lemma same_caches_trans: "same_caches a b \<Longrightarrow> same_caches b c \<Longrightarrow> same_caches a c"
  by (simp add: same_caches_def)

lemma seedSales_row_persist: "covers st (seedSales_row r st)"
  by (simp add: seedSales_row_step catalog_step_persist)

lemma seedSales_row_replay:
  "same_caches a b \<Longrightarrow> covers (seedSales_row r a) b \<Longrightarrow>
     catalog_keys (seedSales_row r b) = catalog_keys b \<and>
     same_caches (seedSales_row r a) (seedSales_row r b)"
  by (simp add: seedSales_row_step catalog_step_replay)

lemma seedPrices_row_persist: "covers st (seedPrices_row r st)"
proof (rule covers_keys [OF seedPrices_row_keys])
  show "covers st (if pr_makerName r = [] \<or> pr_modelName r = [] \<or> pr_genmodelId r = [] then st
                   else catalog_step (pr_makerName r) (pr_modelName r) (pr_genmodelId r) st)"
    by (simp add: covers_refl catalog_step_persist)
qed

lemma seedPrices_row_replay:
  assumes same: "same_caches a b" and cov: "covers (seedPrices_row r a) b"
  shows "catalog_keys (seedPrices_row r b) = catalog_keys b \<and>
         same_caches (seedPrices_row r a) (seedPrices_row r b)"
proof (cases "pr_makerName r = [] \<or> pr_modelName r = [] \<or> pr_genmodelId r = []")
  case True
  then show ?thesis using same by (simp add: seedPrices_row_def)
next
  case False
  let ?f = "catalog_step (pr_makerName r) (pr_modelName r) (pr_genmodelId r)"
  have ka: "catalog_keys (seedPrices_row r a) = catalog_keys (?f a)"
    and kb: "catalog_keys (seedPrices_row r b) = catalog_keys (?f b)"
    using False seedPrices_row_keys by simp_all
  have ca: "same_caches (seedPrices_row r a) (?f a)"
    and cb: "same_caches (seedPrices_row r b) (?f b)"
    using False seedPrices_row_caches [of r a] seedPrices_row_caches [of r b] by simp_all
  have "covers (?f a) b" using covers_keys_left [OF ka [symmetric] cov] .
  from catalog_step_replay [OF same this] have
    "catalog_keys (?f b) = catalog_keys b" "same_caches (?f a) (?f b)" by simp_all
  with kb ca cb show ?thesis
    by (metis same_caches_sym same_caches_trans)
qed

subsection \<open>Whole runs\<close>

lemma run_persist:
  assumes "\<And>r st. covers st (step r st)"
  shows "covers st (foldl (\<lambda>s r. step r s) st rows)"
proof (induction rows arbitrary: st)
  case Nil
  show ?case by (simp add: covers_refl)
next
  case (Cons r rows)
  show ?case using covers_trans [OF assms Cons.IH] by simp
qed

lemma run_replay:
  assumes persist: "\<And>r st. covers st (step r st)"
    and replay: "\<And>r a b. same_caches a b \<Longrightarrow> covers (step r a) b \<Longrightarrow>
                   catalog_keys (step r b) = catalog_keys b \<and> same_caches (step r a) (step r b)"
  shows "same_caches a b \<Longrightarrow> covers (foldl (\<lambda>s r. step r s) a rows) b \<Longrightarrow>
           catalog_keys (foldl (\<lambda>s r. step r s) b rows) = catalog_keys b \<and>
           same_caches (foldl (\<lambda>s r. step r s) a rows) (foldl (\<lambda>s r. step r s) b rows)"
proof (induction rows arbitrary: a b)
  case Nil
  then show ?case by simp
next
  case (Cons r rows)
  have "covers (step r a) (foldl (\<lambda>s r. step r s) (step r a) rows)"
    by (rule run_persist [OF persist])
  with Cons.prems(2) have cov1: "covers (step r a) b" by (simp add: covers_trans)
  from replay [OF Cons.prems(1) cov1] have
    k: "catalog_keys (step r b) = catalog_keys b" and c: "same_caches (step r a) (step r b)"
    by simp_all
  have "covers (foldl (\<lambda>s r. step r s) (step r a) rows) (step r b)"
    using covers_keys [OF k] Cons.prems(2) by simp
  from Cons.IH [OF c this] k show ?case by simp
qed

lemma seedCatalog_replay:
  assumes same: "same_caches a b" and cov: "covers (seedCatalog srows prows a) b"
  shows "catalog_keys (seedCatalog srows prows b) = catalog_keys b"
proof -
  have "covers (seedSales srows a) (seedCatalog srows prows a)"
    unfolding seedCatalog_def seedPrices_def by (rule run_persist [OF seedPrices_row_persist])
  then have cov1: "covers (seedSales srows a) b" using cov by (rule covers_trans)
  have s: "catalog_keys (seedSales srows b) = catalog_keys b \<and>
           same_caches (seedSales srows a) (seedSales srows b)"
    unfolding seedSales_def
    by (rule run_replay [OF seedSales_row_persist seedSales_row_replay same
          cov1 [unfolded seedSales_def]])
  have cov2: "covers (seedPrices prows (seedSales srows a)) (seedSales srows b)"
    using covers_keys [OF conjunct1 [OF s]] cov unfolding seedCatalog_def by simp
  have "catalog_keys (seedPrices prows (seedSales srows b)) = catalog_keys (seedSales srows b)"
    using run_replay [OF seedPrices_row_persist seedPrices_row_replay conjunct2 [OF s]
        cov2 [unfolded seedPrices_def]]
    unfolding seedPrices_def by simp
  with s show ?thesis unfolding seedCatalog_def by simp
qed

text \<open>
  Claim C8. Run catalog ingestion (the sales file, then the price file) in a fresh
  process on any database, and run it again with the same rows in another fresh process
  on the result: the second run leaves the makers table as it is, and the models table
  keeps the same rows with the same id, maker id and \<open>genmodel_id\<close>, in the same
  order. No maker or model row is added and no id changes.
\<close>

theorem catalog_ingestion_idempotent:
  "makers (ing_db (seedCatalog srows prows
             (fresh_process (ing_db (seedCatalog srows prows (fresh_process d))))))
     = makers (ing_db (seedCatalog srows prows (fresh_process d))) \<and>
   map model_key (models (ing_db (seedCatalog srows prows
             (fresh_process (ing_db (seedCatalog srows prows (fresh_process d)))))))
     = map model_key (models (ing_db (seedCatalog srows prows (fresh_process d))))"
proof -
  let ?a = "fresh_process d"
  let ?b = "fresh_process (ing_db (seedCatalog srows prows ?a))"
  have same: "same_caches ?a ?b" by (simp add: same_caches_def fresh_process_def)
  have keys: "catalog_keys ?b = catalog_keys (seedCatalog srows prows ?a)"
    by (simp add: catalog_keys_def fresh_process_def)
  have "covers (seedCatalog srows prows ?a) ?b"
    by (rule covers_keys [OF keys covers_refl])
  from seedCatalog_replay [OF same this] keys show ?thesis
    by (simp add: catalog_keys_def)
qed


lemma first_occurrences_cong:
  "set seen = set seen' \<Longrightarrow> first_occurrences seen ns = first_occurrences seen' ns"
proof (induction ns arbitrary: seen seen')
  case Nil
  show ?case by simp
next
  case (Cons n ns)
  have "first_occurrences (maker_key n # seen) ns = first_occurrences (maker_key n # seen') ns"
    by (rule Cons.IH) (simp add: Cons.prems)
  moreover have "first_occurrences seen ns = first_occurrences seen' ns"
    by (rule Cons.IH) (rule Cons.prems)
  ultimately show ?case using Cons.prems by simp
qed

lemma first_occurrences_subset:
  "x \<in> set (first_occurrences seen ns) \<Longrightarrow> \<exists>n \<in> set ns. x = trim n \<and> maker_key n \<notin> set seen"
proof (induction ns arbitrary: seen)
  case Nil
  then show ?case by simp
next
  case (Cons n ns)
  show ?case
  proof (cases "maker_key n \<in> set seen")
    case True
    with Cons.prems have "x \<in> set (first_occurrences seen ns)" by simp
    from Cons.IH [OF this] show ?thesis by auto
  next
    case False
    with Cons.prems consider "x = trim n" | "x \<in> set (first_occurrences (maker_key n # seen) ns)"
      by auto
    then show ?thesis
    proof cases
      case 1
      with False show ?thesis by auto
    next
      case 2
      from Cons.IH [OF this] show ?thesis by auto
    qed
  qed
qed

lemma first_occurrences_snoc:
  "first_occurrences seen (ns @ [n]) =
     first_occurrences seen ns @
       (if maker_key n \<in> set seen \<union> maker_key ` set ns then [] else [trim n])"
proof (induction ns arbitrary: seen)
  case Nil
  show ?case by simp
next
  case (Cons m ns)
  show ?case using Cons.IH [of seen] Cons.IH [of "maker_key m # seen"] by auto
qed

lemma first_occurrences_fresh:
  "x \<in> set (first_occurrences seen ns) \<Longrightarrow> toUpperCase x \<notin> set seen"
  using first_occurrences_subset [of x seen ns] by (auto simp: maker_key_def)

lemma first_occurrences_distinct: "distinct (map toUpperCase (first_occurrences seen ns))"
proof (induction ns arbitrary: seen)
  case Nil
  show ?case by simp
next
  case (Cons n ns)
  show ?case
  proof (cases "maker_key n \<in> set seen")
    case True
    then show ?thesis using Cons.IH by simp
  next
    case False
    have "toUpperCase (trim n) \<notin> toUpperCase ` set (first_occurrences (maker_key n # seen) ns)"
    proof
      assume "toUpperCase (trim n) \<in> toUpperCase ` set (first_occurrences (maker_key n # seen) ns)"
      then obtain x where x: "x \<in> set (first_occurrences (maker_key n # seen) ns)"
        and eq: "toUpperCase x = toUpperCase (trim n)" by auto
      from first_occurrences_fresh [OF x] eq show False by (simp add: maker_key_def)
    qed
    with False Cons.IH show ?thesis by simp
  qed
qed

lemma first_occurrences_keys:
  "toUpperCase ` set (first_occurrences [] ns) = maker_key ` set ns"
proof (induction ns rule: rev_induct)
  case Nil
  show ?case by simp
next
  case (snoc n ns)
  then show ?case by (auto simp: first_occurrences_snoc maker_key_def)
qed

lemma maker_lookup_None: "name \<notin> mk_name ` set mks \<Longrightarrow> maker_lookup mks name = None"
  by (induction mks) (auto simp: maker_lookup_def)

lemma getMakerId_makers_after:
  assumes "makers_after st done"
  shows "makers_after (snd (getMakerId n st)) (done @ [n])"
proof (cases "makerCache st (toUpperCase (trim n))")
  case (Some i)
  then have "maker_key n \<in> maker_key ` set done"
    using assms by (auto simp: makers_after_def maker_key_def)
  with assms show ?thesis
    unfolding getMakerId_hit [OF Some]
    by (auto simp: makers_after_def first_occurrences_snoc)
next
  case None
  then have fresh: "maker_key n \<notin> maker_key ` set done"
    using assms by (auto simp: makers_after_def maker_key_def)
  have "trim n \<notin> set (first_occurrences [] done)"
  proof
    assume "trim n \<in> set (first_occurrences [] done)"
    then have "toUpperCase (trim n) \<in> toUpperCase ` set (first_occurrences [] done)" by blast
    with fresh show False by (simp add: first_occurrences_keys maker_key_def)
  qed
  then have "trim n \<notin> mk_name ` set (makers (ing_db st))"
    using assms by (metis makers_after_def set_map)
  then have "maker_lookup (makers (ing_db st)) (trim n) = None" by (rule maker_lookup_None)
  then have up: "makers (snd (upsert_maker (trim n) (ing_db st)))
                   = makers (ing_db st) @ [\<lparr>mk_id = makers_seq (ing_db st), mk_name = trim n\<rparr>]"
    by (simp add: upsert_maker_cases)
  show ?thesis
    unfolding getMakerId_miss [OF None]
    using assms fresh up
    by (auto simp: makers_after_def first_occurrences_snoc maker_key_def)
qed

lemma getModelId_makers_after:
  "makers_after st done \<Longrightarrow> makers_after (snd (getModelId i m g st)) done"
  by (cases "modelCache st (i, g)")
     (simp_all add: getModelId_hit getModelId_miss makers_after_def upsert_model_makers)

lemma catalog_step_makers_after:
  "makers_after st done \<Longrightarrow> makers_after (catalog_step n m g st) (done @ [n])"
  unfolding catalog_step_def
  by (intro getModelId_makers_after getMakerId_makers_after)

lemma seedSales_makers_after:
  "makers_after st done \<Longrightarrow> makers_after (seedSales rows st) (done @ map s_Maker rows)"
proof (induction rows arbitrary: st "done")
  case Nil
  then show ?case by (simp add: seedSales_def)
next
  case (Cons r rows)
  have "makers_after (seedSales_row r st) (done @ [s_Maker r])"
    unfolding seedSales_row_step by (rule catalog_step_makers_after [OF Cons.prems])
  from Cons.IH [OF this] show ?case by (simp add: seedSales_def)
qed

lemma seedPrices_row_makers_after:
  assumes "makers_after st done"
  shows "makers_after (seedPrices_row r st)
           (done @ (if pr_makerName r = [] \<or> pr_modelName r = [] \<or> pr_genmodelId r = []
                    then [] else [pr_makerName r]))"
proof (cases "pr_makerName r = [] \<or> pr_modelName r = [] \<or> pr_genmodelId r = []")
  case True
  then show ?thesis using assms by (simp add: seedPrices_row_def)
next
  case False
  let ?f = "catalog_step (pr_makerName r) (pr_modelName r) (pr_genmodelId r)"
  have "makers_after (?f st) (done @ [pr_makerName r])"
    by (rule catalog_step_makers_after [OF assms])
  moreover have "makers (ing_db (seedPrices_row r st)) = makers (ing_db (?f st))"
    using seedPrices_row_keys [of r st] False by (simp add: catalog_keys_def)
  moreover have "makerCache (seedPrices_row r st) = makerCache (?f st)"
    using seedPrices_row_caches [of r st] False by (simp add: same_caches_def)
  ultimately show ?thesis using False by (simp add: makers_after_def)
qed

lemma seedPrices_makers_after:
  "makers_after st done \<Longrightarrow>
     makers_after (seedPrices rows st)
       (done @ map pr_makerName
          (filter (\<lambda>r. \<not> (pr_makerName r = [] \<or> pr_modelName r = [] \<or> pr_genmodelId r = [])) rows))"
proof (induction rows arbitrary: st "done")
  case Nil
  then show ?case by (simp add: seedPrices_def)
next
  case (Cons r rows)
  show ?case
  proof (cases "pr_makerName r = [] \<or> pr_modelName r = [] \<or> pr_genmodelId r = []")
    case True
    with Cons.IH [OF seedPrices_row_makers_after [OF Cons.prems, of r]] show ?thesis
      by (auto simp: seedPrices_def)
  next
    case False
    with Cons.IH [OF seedPrices_row_makers_after [OF Cons.prems, of r]] show ?thesis
      by (auto simp: seedPrices_def)
  qed
qed

text \<open>
  Claim C9, as amended. Within one run of catalog ingestion, in a fresh process on a
  database without makers, the makers table holds one row for each class of requested
  names that are equal after trimming and upper-casing, in the order of first
  occurrence, and the stored name is the trimmed first occurrence; no two rows have
  names that differ only in letter case.
\<close>

theorem maker_case_uniqueness_in_one_run:
  assumes "makers d = []"
  shows "map mk_name (makers (ing_db (seedCatalog srows prows (fresh_process d))))
           = first_occurrences [] (source_maker_names srows prows) \<and>
         distinct (map (\<lambda>r. toUpperCase (mk_name r))
                     (makers (ing_db (seedCatalog srows prows (fresh_process d)))))"
proof -
  have "makers_after (fresh_process d) []"
    using assms by (simp add: makers_after_def fresh_process_def)
  from seedPrices_makers_after [OF seedSales_makers_after [OF this]]
  have names: "map mk_name (makers (ing_db (seedCatalog srows prows (fresh_process d))))
           = first_occurrences [] (source_maker_names srows prows)"
    by (simp add: makers_after_def seedCatalog_def source_maker_names_def)
  have "map (\<lambda>r. toUpperCase (mk_name r))
          (makers (ing_db (seedCatalog srows prows (fresh_process d))))
        = map toUpperCase (map mk_name (makers (ing_db (seedCatalog srows prows (fresh_process d)))))"
    by simp
  then show ?thesis using names first_occurrences_distinct by simp
qed


lemma example_first_run:
  "makers (ing_db (seedCatalog example_sales example_price_rows (fresh_process empty_db)))
     = [\<lparr>mk_id = 1, mk_name = ''BMW''\<rparr>]"
  by code_simp

lemma example_first_run_models:
  "map model_key (models (ing_db (seedCatalog example_sales example_price_rows (fresh_process empty_db))))
     = [(1, 1, ''8_1''), (2, 1, ''8_2'')]"
  by code_simp

theorem catalog_ingestion_idempotent_witness:
  "makers (ing_db (seedCatalog example_sales example_price_rows
             (fresh_process (ing_db (seedCatalog example_sales example_price_rows
                (fresh_process empty_db))))))
     = [\<lparr>mk_id = 1, mk_name = ''BMW''\<rparr>] \<and>
   map model_key (models (ing_db (seedCatalog example_sales example_price_rows
             (fresh_process (ing_db (seedCatalog example_sales example_price_rows
                (fresh_process empty_db)))))))
     = [(1, 1, ''8_1''), (2, 1, ''8_2'')]"
  using catalog_ingestion_idempotent [of example_sales example_price_rows empty_db]
  unfolding example_first_run example_first_run_models .

theorem maker_case_uniqueness_in_one_run_witness:
  "makers empty_db = [] \<and>
   map mk_name (makers (ing_db (seedCatalog example_sales example_price_rows
                                  (fresh_process empty_db)))) = [''BMW'']"
proof -
  have h: "makers empty_db = []" by (simp add: empty_db_def)
  have "first_occurrences [] (source_maker_names example_sales example_price_rows) = [''BMW'']"
    by code_simp
  with maker_case_uniqueness_in_one_run [OF h, of example_sales example_price_rows] h
  show ?thesis by simp
qed

text \<open>
  Claim C9 as stated fails across runs: the constraint \<open>UNIQUE (name)\<close> compares names
  with their case, and the cache that compares upper-cased names lives only as long as
  the process. A run that requests \<open>bmw\<close> on a database that a previous run filled
  with \<open>BMW\<close> adds a second row.
\<close>

theorem maker_case_second_run_counterexample:
  "makers (ing_db (seedCatalog
             [\<lparr>s_Maker = ''bmw'', s_Genmodel = ''X5'', s_Genmodel_ID = ''8_2''\<rparr>] []
             (fresh_process (ing_db (seedCatalog
                [\<lparr>s_Maker = ''BMW'', s_Genmodel = ''3 Series'', s_Genmodel_ID = ''8_1''\<rparr>] []
                (fresh_process empty_db))))))
     = [\<lparr>mk_id = 1, mk_name = ''BMW''\<rparr>, \<lparr>mk_id = 2, mk_name = ''bmw''\<rparr>]"
  by code_simp


section \<open>Properties of the reconciliation matcher\<close>



















section \<open>Properties of the extractor\<close>

lemma join_sp_tail: "join_sp (q # qs) = q @ tail_join qs"
  by (induction qs arbitrary: q) auto

lemma dropWhile_append_stop:
  "r = [] \<or> \<not> P (hd r) \<Longrightarrow> dropWhile P (q @ r) = dropWhile P q @ r"
  by (induction q) (auto simp: dropWhile_eq_self_iff)

lemma space_is_space: "is_space (CHR '' '')"
  by (simp add: is_space_def)

lemma space_not_digit: "\<not> is_digit (CHR '' '')"
  by (simp add: is_digit_def)

lemma space_not_terminator: "\<not> is_line_terminator (CHR '' '')"
  by (simp add: is_line_terminator_def)

lemma terminator_is_space: "is_line_terminator c \<Longrightarrow> is_space c"
  by (auto simp: is_line_terminator_def is_space_def)

lemma tail_join_stop: "tail_join qs = [] \<or> \<not> is_digit (hd (tail_join qs))"
  by (cases qs) (simp_all add: space_not_digit)

lemma is_token_hd: "is_token q \<Longrightarrow> \<not> is_space (hd q)"
  by (cases q) (auto simp: is_token_def)

lemma is_token_no_space: "is_token q \<Longrightarrow> c \<in> set q \<Longrightarrow> \<not> is_space c"
  by (auto simp: is_token_def list_ex_iff)

lemma no_terminator_tail_join:
  "\<forall>q \<in> set qs. is_token q \<Longrightarrow> \<not> list_ex is_line_terminator (tail_join qs)"
  by (induction qs)
     (auto simp: list_ex_iff space_not_terminator dest: terminator_is_space is_token_no_space)

lemma no_terminator_token: "is_token q \<Longrightarrow> \<not> list_ex is_line_terminator q"
  by (auto simp: list_ex_iff dest: terminator_is_space is_token_no_space)

lemma dropWhile_space_token: "is_token q \<Longrightarrow> dropWhile is_space (q @ r) = q @ r"
  by (cases q) (auto simp: is_token_def)

lemma suffix_no_space:
  "\<not> list_ex is_space q \<Longrightarrow> \<not> list_ex is_space (dropWhile P q)"
  by (auto simp: list_ex_iff dest: set_dropWhileD)

lemma engine_suffix_at_tokens:
  assumes q: "is_token q" and qs: "\<forall>t \<in> set qs. is_token t"
  shows "engine_suffix_at (CHR '' '' # q @ tail_join qs) = engine_tokens (q # qs)"
proof -
  define tj where "tj = tail_join qs"
  define dq where "dq = dropWhile is_digit q"
  have stop: "tj = [] \<or> \<not> is_digit (hd tj)" unfolding tj_def by (rule tail_join_stop)
  have qne: "q \<noteq> []" using q by (simp add: is_token_def)
  have s1: "dropWhile is_space (CHR '' '' # q @ tj) = q @ tj"
    using dropWhile_space_token [OF q] by (simp add: space_is_space)
  have s2: "dropWhile is_digit (q @ tj) = dq @ tj"
    unfolding dq_def using stop by (rule dropWhile_append_stop [where P = is_digit and r = tj])
  have noterm: "\<not> list_ex is_line_terminator tj"
    unfolding tj_def by (rule no_terminator_tail_join [OF qs])
  have tj_hd: "tj \<noteq> [] \<Longrightarrow> hd tj = CHR '' ''" unfolding tj_def by (cases qs) simp_all
  have E: "engine_suffix_at (CHR '' '' # q @ tj) =
     (is_digit (hd q) \<and> dq @ tj \<noteq> [] \<and> hd (dq @ tj) = CHR ''.'' \<and>
      tl (dq @ tj) \<noteq> [] \<and> is_digit (hd (tl (dq @ tj))) \<and>
      dropWhile is_space (dropWhile is_digit (tl (dq @ tj))) \<noteq> [] \<and>
      is_letter (hd (dropWhile is_space (dropWhile is_digit (tl (dq @ tj))))) \<and>
      \<not> list_ex is_line_terminator (dropWhile is_space (dropWhile is_digit (tl (dq @ tj)))))"
    unfolding engine_suffix_at_def Let_def s1 s2 using qne by (simp add: space_is_space)
  show ?thesis
  proof (cases "is_digit (hd q)")
    case False
    then show ?thesis unfolding tj_def [symmetric] E
      by (simp add: engine_tokens_def after_decimal_def)
  next
    case dig: True
    show ?thesis
    proof (cases dq)
      case Nil
      have "\<not> (tj \<noteq> [] \<and> hd tj = CHR ''.'')" using tj_hd by auto
      then show ?thesis unfolding tj_def [symmetric] E using Nil dig qne
        by (auto simp: engine_tokens_def after_decimal_def dq_def [symmetric])
    next
      case (Cons c r)
      show ?thesis
      proof (cases "c = CHR ''.'' \<and> r \<noteq> [] \<and> is_digit (hd r)")
        case False
        have "\<not> (c = CHR ''.'' \<and> r @ tj \<noteq> [] \<and> is_digit (hd (r @ tj)))"
          using False stop by (cases r) auto
        then have lhs: "\<not> engine_suffix_at (CHR '' '' # q @ tj)"
          unfolding E using Cons by auto
        have "after_decimal q = None"
          using False Cons dig qne by (auto simp: after_decimal_def dq_def [symmetric])
        then have "\<not> engine_tokens (q # qs)" by (simp add: engine_tokens_def)
        with lhs show ?thesis unfolding tj_def by simp
      next
        case True
        define dr where "dr = dropWhile is_digit r"
        have s4: "dropWhile is_digit (r @ tj) = dr @ tj"
          unfolding dr_def using stop by (rule dropWhile_append_stop [where P = is_digit and r = tj])
        have ad: "after_decimal q = Some dr"
          using True Cons dig qne by (simp add: after_decimal_def dq_def [symmetric] dr_def)
        have "\<not> list_ex is_space dq" unfolding dq_def
          using q by (intro suffix_no_space) (simp add: is_token_def)
        then have "\<not> list_ex is_space r" using Cons by simp
        then have dr_ns: "\<not> list_ex is_space dr" unfolding dr_def by (rule suffix_no_space)
        have E2: "engine_suffix_at (CHR '' '' # q @ tj) =
           (dropWhile is_space (dr @ tj) \<noteq> [] \<and>
            is_letter (hd (dropWhile is_space (dr @ tj))) \<and>
            \<not> list_ex is_line_terminator (dropWhile is_space (dr @ tj)))"
          unfolding E using True Cons dig s4 by simp
        show ?thesis
        proof (cases dr)
          case (Cons d ds)
          then have "\<not> is_space d" using dr_ns by simp
          then have s5: "dropWhile is_space (dr @ tj) = dr @ tj" using Cons by simp
          have "\<not> list_ex is_line_terminator dr"
            using dr_ns by (auto simp: list_ex_iff dest: terminator_is_space)
          then show ?thesis unfolding tj_def [symmetric] E2 s5 using Cons noterm ad
            by (simp add: engine_tokens_def)
        next
          case Nil
          show ?thesis
          proof (cases qs)
            case Nil': Nil
            then show ?thesis unfolding tj_def [symmetric] E2 using Nil ad
              by (simp add: engine_tokens_def tj_def)
          next
            case (Cons nxt rest)
            then have nxt: "is_token nxt" using qs by simp
            have "dropWhile is_space tj = nxt @ tail_join rest"
              unfolding tj_def Cons using dropWhile_space_token [OF nxt]
              by (simp add: space_is_space)
            moreover have "\<not> list_ex is_line_terminator (nxt @ tail_join rest)"
              using no_terminator_token [OF nxt] no_terminator_tail_join [of rest] qs Cons
              by simp
            moreover have "nxt \<noteq> []" using nxt by (simp add: is_token_def)
            ultimately show ?thesis unfolding tj_def [symmetric] E2 using Nil ad Cons
              by (simp add: engine_tokens_def)
          qed
        qed
      qed
    qed
  qed
qed

lemma engine_suffix_at_needs_space: "\<not> is_space c \<Longrightarrow> \<not> engine_suffix_at (c # cs)"
  by (simp add: engine_suffix_at_def)

lemma strip_engine_word:
  "\<not> list_ex is_space w \<Longrightarrow> strip_engine (w @ r) = w @ strip_engine r"
  by (induction w) (simp_all add: engine_suffix_at_needs_space)

lemma strip_engine_tail_join:
  "\<forall>t \<in> set qs. is_token t \<Longrightarrow> strip_engine (tail_join qs) = tail_join (cut_engine qs)"
proof (induction qs)
  case Nil
  show ?case by simp
next
  case (Cons q qs)
  then have q: "is_token q" and qs: "\<forall>t \<in> set qs. is_token t" by simp_all
  have ns: "\<not> list_ex is_space q" using q by (simp add: is_token_def)
  show ?case
    using engine_suffix_at_tokens [OF q qs] strip_engine_word [OF ns] Cons.IH [OF qs]
    by simp
qed

lemma strip_engine_join:
  assumes "is_token q" "\<forall>t \<in> set qs. is_token t"
  shows "strip_engine (join_sp (q # qs)) = join_sp (q # cut_engine qs)"
proof -
  have "\<not> list_ex is_space q" using assms(1) by (simp add: is_token_def)
  then show ?thesis
    unfolding join_sp_tail using strip_engine_tail_join [OF assms(2)]
    by (simp add: strip_engine_word)
qed

lemma cut_engine_subset: "set (cut_engine qs) \<subseteq> set qs"
  by (induction qs) auto

lemma cut_engine_take: "\<exists>k \<le> length qs. cut_engine qs = take k qs"
proof (induction qs)
  case Nil
  show ?case by simp
next
  case (Cons q qs)
  show ?case
  proof (cases "engine_tokens (q # qs)")
    case True
    then show ?thesis by (intro exI [of _ 0]) simp
  next
    case False
    from Cons.IH obtain k where "k \<le> length qs" "cut_engine qs = take k qs" by blast
    with False show ?thesis by (intro exI [of _ "Suc k"]) simp
  qed
qed

lemma dropWhile_id: "xs \<noteq> [] \<Longrightarrow> \<not> P (hd xs) \<Longrightarrow> dropWhile P xs = xs"
  by (cases xs) auto

lemma trim_id:
  assumes "s \<noteq> []" "\<not> is_space (hd s)" "\<not> is_space (last s)"
  shows "trim s = s"
proof -
  have "dropWhile is_space s = s" using assms by (simp add: dropWhile_id)
  moreover have "dropWhile is_space (rev s) = rev s"
    using assms by (intro dropWhile_id) (simp_all add: hd_rev)
  ultimately show ?thesis by (simp add: trim_def)
qed

lemma last_tail_join:
  "qs \<noteq> [] \<Longrightarrow> \<forall>t \<in> set qs. is_token t \<Longrightarrow> last (q @ tail_join qs) = last (last qs)"
proof (induction qs arbitrary: q)
  case Nil
  then show ?case by simp
next
  case (Cons a qs)
  have ane: "a \<noteq> []" using Cons.prems by (simp add: is_token_def)
  show ?case
  proof (cases qs)
    case Nil
    then show ?thesis using ane by simp
  next
    case (Cons b bs)
    have "last (a @ tail_join qs) = last (last qs)"
      using Cons.IH [of a] Cons.prems Cons by simp
    moreover have "tail_join qs \<noteq> []" using Cons by simp
    ultimately show ?thesis using Cons by simp
  qed
qed

lemma is_token_last: "is_token q \<Longrightarrow> \<not> is_space (last q)"
  using is_token_no_space [of q "last q"] by (simp add: is_token_def)

lemma trim_join:
  assumes "is_token q" "\<forall>t \<in> set qs. is_token t"
  shows "trim (join_sp (q # qs)) = join_sp (q # qs)"
proof (rule trim_id)
  have qne: "q \<noteq> []" using assms(1) by (simp add: is_token_def)
  show "join_sp (q # qs) \<noteq> []" using qne by (simp add: join_sp_tail)
  show "\<not> is_space (hd (join_sp (q # qs)))"
    using qne is_token_hd [OF assms(1)] by (simp add: join_sp_tail)
  show "\<not> is_space (last (join_sp (q # qs)))"
  proof (cases qs)
    case Nil
    then show ?thesis using is_token_last [OF assms(1)] by (simp add: join_sp_tail)
  next
    case (Cons a as)
    then have "last (q @ tail_join qs) = last (last qs)"
      using last_tail_join [of qs q] assms(2) by simp
    moreover have "is_token (last qs)" using Cons assms(2) by (metis last_in_set list.distinct(1))
    ultimately show ?thesis using is_token_last by (simp add: join_sp_tail)
  qed
qed

lemma split_ws_tokens:
  "s \<noteq> [] \<Longrightarrow> \<not> is_space (hd s) \<Longrightarrow> \<not> is_space (last s) \<Longrightarrow>
     \<forall>tok \<in> set (split_ws s). is_token tok"
proof (induction s rule: split_ws.induct)
  case (1 s)
  define tok where "tok = takeWhile (\<lambda>c. \<not> is_space c) s"
  define rest where "rest = dropWhile (\<lambda>c. \<not> is_space c) s"
  have s: "s = tok @ rest" by (simp add: tok_def rest_def)
  have "tok \<noteq> []" using "1.prems"(1,2) unfolding tok_def by (cases s) auto
  moreover have "\<not> list_ex is_space tok"
    unfolding tok_def by (auto simp: list_ex_iff dest: set_takeWhileD)
  ultimately have tok: "is_token tok" by (simp add: is_token_def)
  show ?case
  proof (cases "rest = []")
    case True
    then show ?thesis using tok by (subst split_ws.simps) (simp add: tok_def rest_def Let_def)
  next
    case False
    define s' where "s' = dropWhile is_space rest"
    have last_rest: "last rest = last s" using False s by (metis last_appendR)
    then have "\<not> is_space (last rest)" using "1.prems"(3) by simp
    moreover have "last rest \<in> set rest" using False by simp
    ultimately have ne: "s' \<noteq> []" unfolding s'_def by (auto simp: dropWhile_eq_Nil_conv)
    have hd': "\<not> is_space (hd s')" unfolding s'_def using ne hd_dropWhile s'_def by metis
    have "rest = takeWhile is_space rest @ s'" by (simp add: s'_def)
    then have "last rest = last s'" using ne by (metis last_appendR)
    then have last': "\<not> is_space (last s')" using last_rest "1.prems"(3) by simp
    have "\<forall>t \<in> set (split_ws s'). is_token t"
      using "1.IH" [OF tok_def rest_def False] ne hd' last' unfolding s'_def by blast
    then show ?thesis using tok False
      by (subst split_ws.simps) (simp add: tok_def rest_def Let_def s'_def)
  qed
qed

lemma split_ws_Nil: "split_ws [] = [[]]"
  by (subst split_ws.simps) simp

lemma trim_ends:
  assumes "trim t \<noteq> []"
  shows "\<not> is_space (hd (trim t))" and "\<not> is_space (last (trim t))"
proof -
  define u where "u = dropWhile is_space t"
  define v where "v = dropWhile is_space (rev u)"
  have tr: "trim t = rev v" by (simp add: trim_def u_def v_def)
  with assms have vne: "v \<noteq> []" by simp
  then have "\<not> is_space (hd v)" unfolding v_def using hd_dropWhile by metis
  then show "\<not> is_space (last (trim t))" using vne by (simp add: tr last_rev)
  have une: "u \<noteq> []" using vne by (auto simp: v_def)
  have "rev u = takeWhile is_space (rev u) @ v" by (simp add: v_def)
  then have "last (rev u) = last v" using vne by (metis last_appendR)
  then have "hd u = last v" using une by (simp add: last_rev)
  moreover have "\<not> is_space (hd u)" using une unfolding u_def using hd_dropWhile by metis
  ultimately show "\<not> is_space (hd (trim t))" using vne by (simp add: tr hd_rev)
qed

lemma cut_engine_first:
  "\<exists>k \<le> length qs. cut_engine qs = take k qs \<and>
       (\<forall>i < k. \<not> engine_tokens (drop i qs)) \<and>
       (k < length qs \<longrightarrow> engine_tokens (drop k qs))"
proof (induction qs)
  case Nil
  show ?case by simp
next
  case (Cons q qs)
  show ?case
  proof (cases "engine_tokens (q # qs)")
    case True
    then show ?thesis by (intro exI [of _ 0]) simp
  next
    case False
    from Cons.IH obtain k where k: "k \<le> length qs" "cut_engine qs = take k qs"
      "\<forall>i < k. \<not> engine_tokens (drop i qs)" "k < length qs \<longrightarrow> engine_tokens (drop k qs)"
      by blast
    have "\<forall>i < Suc k. \<not> engine_tokens (drop i (q # qs))"
    proof (intro allI impI)
      fix i assume "i < Suc k"
      then show "\<not> engine_tokens (drop i (q # qs))" using False k(3) by (cases i) auto
    qed
    with False k show ?thesis by (intro exI [of _ "Suc k"]) simp
  qed
qed

text \<open>
  Claim C5, as amended. For every title whose trimmed text splits at whitespace into at
  least two tokens, the second of which is not \<open>Benz\<close>, the make is the first token and
  the model is the remaining tokens joined with single spaces and cut before the first
  token, other than the first remaining one, that starts with a decimal number followed
  by a letter of either case, in that token or at the start of the next; when no such
  token exists the model is all remaining tokens. When the second token is \<open>Benz\<close> the
  make is the first token, a hyphen and \<open>Benz\<close>, and the model is formed in the same way
  from the tokens after it.
\<close>

theorem extractMakeModel_tokens:
  assumes "split_ws (trim t) = p0 # p1 # ps"
  shows "(p1 \<noteq> ''Benz'' \<longrightarrow>
            extractMakeModel (Some t)
              = \<lparr>ex_make = Some p0, ex_model = Some (join_sp (p1 # cut_engine ps))\<rparr>) \<and>
         (p1 = ''Benz'' \<longrightarrow>
            extractMakeModel (Some t)
              = \<lparr>ex_make = Some (p0 @ ''-Benz''),
                 ex_model = Some (case ps of [] \<Rightarrow> [] | q # qs \<Rightarrow> join_sp (q # cut_engine qs))\<rparr>) \<and>
         (\<exists>k \<le> length ps. cut_engine ps = take k ps \<and>
             (\<forall>i < k. \<not> engine_tokens (drop i ps)) \<and>
             (k < length ps \<longrightarrow> engine_tokens (drop k ps)))"
proof -
  have tne: "trim t \<noteq> []" using assms split_ws_Nil by auto
  then have "t \<noteq> []" by (auto simp: trim_def)
  have toks: "\<forall>tok \<in> set (split_ws (trim t)). is_token tok"
    using split_ws_tokens [OF tne trim_ends [OF tne]] .
  then have p1: "is_token p1" and ps: "\<forall>q \<in> set ps. is_token q" using assms by simp_all
  have m1: "trim (strip_engine (join_sp (p1 # ps))) = join_sp (p1 # cut_engine ps)"
    using strip_engine_join [OF p1 ps] trim_join [OF p1, of "cut_engine ps"] ps
      cut_engine_subset [of ps] by auto
  have m2: "trim (strip_engine (join_sp ps))
              = (case ps of [] \<Rightarrow> [] | q # qs \<Rightarrow> join_sp (q # cut_engine qs))"
  proof (cases ps)
    case Nil
    then show ?thesis by (simp add: trim_def)
  next
    case (Cons q qs)
    then have q: "is_token q" and qs: "\<forall>x \<in> set qs. is_token x" using ps by simp_all
    show ?thesis
      using strip_engine_join [OF q qs] trim_join [OF q, of "cut_engine qs"] qs
        cut_engine_subset [of qs] Cons by auto
  qed
  show ?thesis
    using \<open>t \<noteq> []\<close> assms m1 m2 cut_engine_first [of ps]
    by (simp add: extractMakeModel_def)
qed

theorem extractMakeModel_tokens_witness:
  "split_ws (trim ''Skoda Octavia Octavia Combi 2.0 TSI'')
     = [''Skoda'', ''Octavia'', ''Octavia'', ''Combi'', ''2.0'', ''TSI''] \<and>
   extractMakeModel (Some ''Skoda Octavia Octavia Combi 2.0 TSI'')
     = \<lparr>ex_make = Some ''Skoda'', ex_model = Some ''Octavia Octavia Combi''\<rparr>"
proof -
  have h: "split_ws (trim ''Skoda Octavia Octavia Combi 2.0 TSI'')
     = ''Skoda'' # ''Octavia'' # [''Octavia'', ''Combi'', ''2.0'', ''TSI'']"
    by code_simp
  have c: "join_sp (''Octavia'' # cut_engine [''Octavia'', ''Combi'', ''2.0'', ''TSI''])
     = ''Octavia Octavia Combi''"
    by code_simp
  have "extractMakeModel (Some ''Skoda Octavia Octavia Combi 2.0 TSI'')
     = \<lparr>ex_make = Some ''Skoda'',
        ex_model = Some (join_sp (''Octavia'' # cut_engine [''Octavia'', ''Combi'', ''2.0'', ''TSI'']))\<rparr>"
    using extractMakeModel_tokens [OF h, THEN conjunct1] by simp
  with h show ?thesis unfolding c by simp
qed

text \<open>
  Claim C5 as stated fails for a code token that is not upper case: the pattern carries
  the flag \<open>i\<close>, so the suffix \<open>2.0 tsi\<close> is stripped as well.
\<close>

theorem extractMakeModel_lowercase_counterexample:
  "extractMakeModel (Some ''Skoda Octavia 2.0 tsi'')
     = \<lparr>ex_make = Some ''Skoda'', ex_model = Some ''Octavia''\<rparr> \<and>
   \<not> list_ex is_upper ''tsi''"
  by code_simp

section \<open>Properties of the count and the pages\<close>

lemma all_true_append:
  "all_true (xs @ ys) =
     (case all_true xs of Inl e \<Rightarrow> Inl e | Inr b \<Rightarrow> if b then all_true ys else Inr False)"
  by (induction xs) (auto split: sum.splits)

lemma all_true_last2:
  "all_true (xs @ [Inr a, Inr b]) = Inr True \<Longrightarrow> a \<and> b"
  by (auto simp: all_true_append split: sum.splits if_splits)

lemma where_true_nonnull:
  "whereClause q j = Inr True \<Longrightarrow> j_entry_price_eur j \<noteq> None \<and> l_price_eur (j_l j) \<noteq> None"
proof -
  assume a: "whereClause q j = Inr True"
  have "filters q j =
     (text_filter (q_maker q) (l_extracted_make (j_l j)) (map_option mk_name (j_mk j)) @
     text_filter (q_model q) (l_extracted_model (j_l j)) (map_option m_name (j_m j)) @
     min_filter (q_minPrice q) (l_price_eur (j_l j)) @
     max_filter (q_maxPrice q) (l_price_eur (j_l j)) @
     min_discount_filter (q_minDiscount q)
       (discount_percent (j_entry_price_eur j) (l_price_eur (j_l j))) @
     max_discount_filter (q_maxDiscount q)
       (discount_percent (j_entry_price_eur j) (l_price_eur (j_l j)))) @
     [Inr (j_entry_price_eur j \<noteq> None), Inr (l_price_eur (j_l j) \<noteq> None)]"
    by (simp add: filters_def)
  with a have "all_true ((text_filter (q_maker q) (l_extracted_make (j_l j)) (map_option mk_name (j_mk j)) @
     text_filter (q_model q) (l_extracted_model (j_l j)) (map_option m_name (j_m j)) @
     min_filter (q_minPrice q) (l_price_eur (j_l j)) @
     max_filter (q_maxPrice q) (l_price_eur (j_l j)) @
     min_discount_filter (q_minDiscount q)
       (discount_percent (j_entry_price_eur j) (l_price_eur (j_l j))) @
     max_discount_filter (q_maxDiscount q)
       (discount_percent (j_entry_price_eur j) (l_price_eur (j_l j)))) @
     [Inr (j_entry_price_eur j \<noteq> None), Inr (l_price_eur (j_l j) \<noteq> None)]) = Inr True"
    by (simp only: whereClause_def)
  then show ?thesis by (rule all_true_last2)
qed

lemma whereClause_page:
  "whereClause (q\<lparr>q_limit := n, q_offset := m\<rparr>) j = whereClause q j"
  by (simp add: whereClause_def filters_def)

lemma join_listing_l [simp]: "j_l (join_listing d l) = l"
  by (simp add: join_listing_def Let_def)









lemma count_matches_page:
  "count_matches (q\<lparr>q_limit := n, q_offset := m\<rparr>) d ls = count_matches q d ls"
  by (induction ls) (simp_all add: whereClause_page split: sum.splits)












subsection \<open>When the statements succeed\<close>



lemma all_true_ok: "\<forall>c \<in> set cs. \<exists>b. c = Inr b \<Longrightarrow> \<exists>b. all_true cs = Inr b"
  by (induction cs) (auto split: sum.splits)

lemma filters_ok:
  assumes "discount_percent (j_entry_price_eur j) (l_price_eur (j_l j)) = Inr v"
  shows "\<forall>c \<in> set (filters q j). \<exists>b. c = Inr b"
  using assms
  by (auto simp: filters_def text_filter_def min_filter_def max_filter_def
      min_discount_filter_def max_discount_filter_def split: option.splits if_splits)


lemma participates_no_filter:
  "q_maker q = None \<Longrightarrow> q_model q = None \<Longrightarrow> q_minPrice q = None \<Longrightarrow> q_maxPrice q = None \<Longrightarrow>
   q_minDiscount q = None \<Longrightarrow> q_maxDiscount q = None \<Longrightarrow>
     participates q d l \<longleftrightarrow>
       j_entry_price_eur (join_listing d l) \<noteq> None \<and> l_price_eur l \<noteq> None"
  by (simp add: participates_def whereClause_def filters_def text_filter_def min_filter_def
      max_filter_def min_discount_filter_def max_discount_filter_def del: not_None_eq)



section \<open>The delta of one listing within the query\<close>

text \<open>
  \<open>computeDelta\<close> is what the statement computes for a listing: for a request without
  optional filters and a listing whose model exists, the common table expression holds
  no row for the listing when \<open>computeDelta\<close> is absent, holds one row with the
  reference price, reference year, delta and percentage of \<open>computeDelta\<close> when it is
  present, and fails when \<open>computeDelta\<close> fails. A listing without a model is left out.
\<close>

lemma whereClause_no_filter:
  assumes "q_maker q = None" "q_model q = None" "q_minPrice q = None" "q_maxPrice q = None"
    "q_minDiscount q = None" "q_maxDiscount q = None"
  shows "whereClause q j = Inr (j_entry_price_eur j \<noteq> None \<and> l_price_eur (j_l j) \<noteq> None)"
  using assms
  by (simp add: whereClause_def filters_def text_filter_def min_filter_def
      max_filter_def min_discount_filter_def max_discount_filter_def del: not_None_eq)

lemma join_listing_matched:
  assumes "l_model_id l = Some i" "find (\<lambda>r. m_id r = i) (models d) = Some m"
  shows "j_p (join_listing d l)
           = closest_year (l_year l) (filter (\<lambda>x. p_model_id x = m_id m) (prices d))"
  using assms by (simp add: join_listing_def)

lemma computeDelta_is_query_row:
  assumes nf: "q_maker q = None" "q_model q = None" "q_minPrice q = None" "q_maxPrice q = None"
    "q_minDiscount q = None" "q_maxDiscount q = None"
    and model: "l_model_id l = Some i" "find (\<lambda>r. m_id r = i) (models d) = Some m"
  shows "case computeDelta (l_price_eur l) (l_year l)
                (filter (\<lambda>x. p_model_id x = m_id m) (prices d)) of
           Inl e \<Rightarrow> price_matches q d [l] = Inl e
         | Inr None \<Rightarrow> price_matches q d [l] = Inr []
         | Inr (Some r) \<Rightarrow>
             (\<exists>row. price_matches q d [l] = Inr [row] \<and> pm_id row = l_id l \<and>
                    pm_original_price row = Some (referencePrice r) \<and>
                    pm_original_year row = Some (referenceYear r) \<and>
                    pm_price_delta row = Some (delta r) \<and>
                    pm_price_delta_percent row = Some (deltaPercent r))"
proof -
  let ?refs = "filter (\<lambda>x. p_model_id x = m_id m) (prices d)"
  have jp: "j_p (join_listing d l) = closest_year (l_year l) ?refs"
    by (rule join_listing_matched [OF model])
  have jl: "j_l (join_listing d l) = l" by simp
  note w = whereClause_no_filter [OF nf, of "join_listing d l"]
  show ?thesis
  proof (cases "closest_year (l_year l) ?refs")
    case None
    then show ?thesis using w jp
      by (simp add: computeDelta_def j_entry_price_eur_def)
  next
    case (Some p)
    show ?thesis
    proof (cases "p_entry_price_eur p")
      case None
      then show ?thesis using w jp Some
        by (simp add: computeDelta_def j_entry_price_eur_def)
    next
      case e: (Some e)
      show ?thesis
      proof (cases "l_price_eur l")
        case None
        then show ?thesis using w jp Some e
          by (simp add: computeDelta_def j_entry_price_eur_def)
      next
        case lp: (Some lp)
        show ?thesis
        proof (cases "e = 0")
          case True
          then show ?thesis using w jp Some e lp
            by (simp add: computeDelta_def j_entry_price_eur_def select_row_def
                discount_percent_def)
        next
          case False
          then show ?thesis using w jp Some e lp
            by (simp add: computeDelta_def j_entry_price_eur_def select_row_def
                discount_percent_def price_delta_def)
        qed
      qed
    qed
  qed
qed

lemma unmatched_listing_excluded:
  assumes "l_model_id l = None"
  shows "price_matches q d [l] = Inr []"
proof -
  have e: "j_entry_price_eur (join_listing d l) = None"
    using assms by (simp add: j_entry_price_eur_def join_listing_def)
  have "\<forall>c \<in> set (filters q (join_listing d l)). \<exists>b. c = Inr b"
    by (rule filters_ok [of _ None]) (simp add: e discount_percent_def)
  from all_true_ok [OF this] obtain b where b: "whereClause q (join_listing d l) = Inr b"
    unfolding whereClause_def by blast
  have "\<not> b" using where_true_nonnull [of q "join_listing d l"] b e by auto
  with b show ?thesis by simp
qed

lemma endpoint_zero_reference:
  "price_delta_endpoint default_query
     (example_db\<lparr>prices := [\<lparr>p_model_id = 1, p_year = 2014, p_entry_price = None,
                               p_entry_price_eur = Some 0\<rparr>]\<rparr>)
   = Inl Division_by_zero"
  by code_simp

end
